theory Spec2Isabelle
  imports Complex_Main "HOL-Library.Sublist"
begin

section \<open>Strings and numbers of the JavaScript runtime\<close>

text \<open>
  A JavaScript string is a sequence of code units. The model uses \<^typ>\<open>string\<close>, whose
  characters are the code units \<open>0x00\<close> to \<open>0xFF\<close> (the ASCII and Latin-1 range), and
  writes out on that range what \<open>toLowerCase\<close>, the regular-expression classes \<open>\s\<close> and
  \<open>.\<close> and the case folding of the \<open>i\<close> flag do. Numbers (severity, confidence) are
  \<^typ>\<open>real\<close>: the program only compares the literals it writes with the thresholds 7 and 9.
\<close>

definition toLowerCaseChar :: "char \<Rightarrow> char" where
  "toLowerCaseChar c =
     (let n = (of_char c :: int) in
      if (65 \<le> n \<and> n \<le> 90) \<or> (192 \<le> n \<and> n \<le> 222 \<and> n \<noteq> 215)
      then char_of (n + 32) else c)"

definition toLowerCase :: "string \<Rightarrow> string" where
  "toLowerCase s = map toLowerCaseChar s"

text \<open>\<open>Canonicalize\<close> of a case-insensitive, non-unicode regular expression: the upper-case
  form of the code unit when that is again a single code unit of the range.\<close>

definition canonicalize :: "char \<Rightarrow> char" where
  "canonicalize c =
     (let n = (of_char c :: int) in
      if (97 \<le> n \<and> n \<le> 122) \<or> (224 \<le> n \<and> n \<le> 254 \<and> n \<noteq> 247)
      then char_of (n - 32) else c)"

definition isLineTerminator :: "char \<Rightarrow> bool" where
  "isLineTerminator c = (c = CHR 0x0A \<or> c = CHR 0x0D)"

definition isWhiteSpace :: "char \<Rightarrow> bool" where
  "isWhiteSpace c =
     (c = CHR 0x09 \<or> c = CHR 0x0A \<or> c = CHR 0x0B \<or> c = CHR 0x0C \<or> c = CHR 0x0D \<or>
      c = CHR 0x20 \<or> c = CHR 0xA0)"

definition digitChar :: "nat \<Rightarrow> char" where
  "digitChar d = char_of (48 + int d)"

text \<open>The decimal rendering of a natural number inside a template literal.\<close>

fun decimal :: "nat \<Rightarrow> string" where
  "decimal n = (if n < 10 then [digitChar n] else decimal (n div 10) @ [digitChar (n mod 10)])"

declare decimal.simps [simp del]

section \<open>Regular expressions with the \<open>i\<close> flag\<close>

text \<open>
  The patterns of the program use literals, \<open>\s\<close>, \<open>.\<close>, the class \<open>[-\s]\<close>, the
  quantifiers \<open>+\<close>, \<open>*\<close> and \<open>?\<close> on one-character atoms, sequencing and alternation.
  \<open>rmatch\<close> is the backtracking matcher with a continuation: greedy quantifiers, the left
  alternative first. \<open>test\<close> tries every start position from the left, as \<open>RegExp.test\<close>
  does for an expression without the \<open>g\<close> and \<open>y\<close> flags.
\<close>

datatype atom = Chr char | Dot | Space | Class "atom list"

fun atom_ok :: "atom \<Rightarrow> char \<Rightarrow> bool" where
  "atom_ok (Chr p) c = (canonicalize p = canonicalize c)"
| "atom_ok Dot c = (\<not> isLineTerminator c)"
| "atom_ok Space c = isWhiteSpace c"
| "atom_ok (Class as) c = list_ex (\<lambda>a. atom_ok a c) as"

datatype rx = Eps | Atom atom | Star atom | Plus atom | Opt atom | Seq rx rx | Alt rx rx

fun rmatch :: "rx \<Rightarrow> string \<Rightarrow> (string \<Rightarrow> bool) \<Rightarrow> bool" where
  "rmatch Eps s k = k s"
| "rmatch (Atom a) [] k = False"
| "rmatch (Atom a) (c # cs) k = (if atom_ok a c then k cs else False)"
| "rmatch (Opt a) [] k = k []"
| "rmatch (Opt a) (c # cs) k =
     (if atom_ok a c then (if k cs then True else k (c # cs)) else k (c # cs))"
| "rmatch (Star a) [] k = k []"
| "rmatch (Star a) (c # cs) k =
     (if atom_ok a c then (if rmatch (Star a) cs k then True else k (c # cs)) else k (c # cs))"
| "rmatch (Plus a) [] k = False"
| "rmatch (Plus a) (c # cs) k = (if atom_ok a c then rmatch (Star a) cs k else False)"
| "rmatch (Seq r1 r2) s k = rmatch r1 s (\<lambda>s'. rmatch r2 s' k)"
| "rmatch (Alt r1 r2) s k = (if rmatch r1 s k then True else rmatch r2 s k)"

fun test :: "rx \<Rightarrow> string \<Rightarrow> bool" where
  "test r [] = rmatch r [] (\<lambda>_. True)"
| "test r (c # cs) = (if rmatch r (c # cs) (\<lambda>_. True) then True else test r cs)"

fun lit :: "string \<Rightarrow> rx" where
  "lit [] = Eps"
| "lit (c # cs) = Seq (Atom (Chr c)) (lit cs)"

fun seqs :: "rx list \<Rightarrow> rx" where
  "seqs [] = Eps"
| "seqs (r # rs) = Seq r (seqs rs)"

definition ws1 :: rx where
  "ws1 = Plus Space"

definition anything :: rx where
  "anything = Star Dot"

text \<open>\<open>wi[-\s]?fi\<close>\<close>

definition wifi :: rx where
  "wifi = seqs [lit ''wi'', Opt (Class [Chr CHR ''-'', Space]), lit ''fi'']"

section \<open>Data model\<close>

record violation =
  v_type :: string
  v_description :: string
  v_reason :: string
  v_severity :: real
  v_confidence :: real
  v_regulatoryFramework :: "string option"

datatype action_kind = approve | flag | block | log_entry | error

record agent_action =
  agentName :: string
  action :: action_kind
  details :: string
  a_timestamp :: nat

datatype status_kind = pending | approved | blocked

datatype severity_kind = low | medium | high | critical

record interaction =
  i_id :: string
  i_input :: string
  i_output :: string
  i_timestamp :: nat
  status :: status_kind
  severity :: severity_kind
  violations :: "violation list"
  agentActions :: "agent_action list"

text \<open>What \<open>processAdvancedGovernance\<close> resolves to: the object built by \<open>#parseAdvanced\<close>.\<close>

record remote_result =
  r_violations :: "violation list"
  r_agentActions :: "agent_action list"
  r_status :: status_kind
  r_severity :: severity_kind
  r_isAccurate :: bool
  r_verificationConfidence :: real

text \<open>The fields of \<open>GovernanceService\<close> that \<open>processInteraction\<close> reads.\<close>

record governance_service =
  useInkeepAgents :: bool
  inkeepAvailable :: bool

text \<open>
  The readings of the clock and of the random generator are inputs of the model, one per
  place of the source that takes one: \<open>Date.now()\<close> and \<open>Math.random()\<close> of the identifier,
  and the \<open>new Date()\<close> of the interaction, of the error action and of the legacy action.
\<close>

record runtime =
  date_now :: nat
  random_tag :: string
  created_at :: nat
  error_at :: nat
  legacy_at :: nat

section \<open>The local pattern detector\<close>

definition wifiHackingPatterns :: "rx list" where
  "wifiHackingPatterns =
    [seqs [lit ''hack'', ws1, lit ''into'', ws1, lit ''someone'', anything, wifi],
     seqs [lit ''hack'', ws1, lit ''into'', anything, wifi],
     seqs [lit ''break'', ws1, lit ''into'', anything, wifi, anything, lit ''without'',
           anything, lit ''knowing''],
     seqs [lit ''crack'', anything, wifi, anything, lit ''password''],
     seqs [lit ''bypass'', anything, wifi, anything, lit ''security''],
     seqs [lit ''steal'', anything, wifi, anything, lit ''password''],
     seqs [lit ''unauthorized'', anything, wifi, anything, lit ''access''],
     seqs [lit ''how'', ws1, Alt (lit ''do'') (Alt (lit ''can'') (lit ''to'')), ws1, lit ''i'',
           anything, lit ''hack'', anything, wifi]]"

definition hackingPatterns :: "rx list" where
  "hackingPatterns =
    [seqs [lit ''hack'', ws1, lit ''into''],
     seqs [lit ''break'', ws1, lit ''into'', ws1,
           Alt (lit ''account'') (Alt (lit ''system'') (lit ''network''))],
     seqs [lit ''crack'', ws1, lit ''password''],
     seqs [lit ''bypass'', ws1, lit ''security''],
     seqs [lit ''unauthorized'', ws1, lit ''access''],
     seqs [lit ''exploit'', ws1, lit ''vulnerability'']]"

definition violencePatterns :: "rx list" where
  "violencePatterns =
    [seqs [lit ''how'', ws1, lit ''to'', ws1, lit ''kill''],
     seqs [lit ''how'', ws1, lit ''to'', ws1, lit ''murder''],
     seqs [lit ''how'', ws1, lit ''to'', ws1, lit ''hurt'', ws1, lit ''someone''],
     seqs [lit ''ways'', ws1, lit ''to'', ws1, lit ''kill''],
     seqs [lit ''murder'', ws1, lit ''someone'']]"

definition piiPatterns :: "rx list" where
  "piiPatterns =
    [seqs [Alt (seqs [lit ''phone'', ws1, lit ''number'']) (Alt (lit ''address'') (lit ''email'')),
           anything, lit ''of'', anything,
           Alt (lit ''celebrity'')
             (Alt (seqs [lit ''taylor'', ws1, lit ''swift''])
                  (seqs [lit ''elon'', ws1, lit ''musk'']))],
     seqs [lit ''give'', ws1, lit ''me'', anything,
           Alt (seqs [lit ''phone'', ws1, lit ''number'']) (Alt (lit ''address'') (lit ''email''))]]"

definition wifiViolation :: violation where
  "wifiViolation =
    \<lparr> v_type = ''illegal_activity'',
      v_description = ''WiFi hacking attempt detected'',
      v_reason = ''Content requests assistance with unauthorized WiFi access (hacking)'',
      v_severity = 9,
      v_confidence = 0.95,
      v_regulatoryFramework = Some ''Computer Fraud and Abuse Act'' \<rparr>"

definition hackingViolation :: violation where
  "hackingViolation =
    \<lparr> v_type = ''illegal_activity'',
      v_description = ''Illegal hacking or cybersecurity violation detected'',
      v_reason = ''Content requests assistance with unauthorized access or hacking'',
      v_severity = 9.5,
      v_confidence = 0.9,
      v_regulatoryFramework = Some ''Computer Fraud and Abuse Act'' \<rparr>"

definition violenceViolation :: violation where
  "violenceViolation =
    \<lparr> v_type = ''violence'',
      v_description = ''Violent content detected'',
      v_reason = ''Content contains requests for violence or harm'',
      v_severity = 9.8,
      v_confidence = 0.95,
      v_regulatoryFramework = Some ''Safety Standards'' \<rparr>"

definition piiViolation :: violation where
  "piiViolation =
    \<lparr> v_type = ''gdpr'',
      v_description = ''Personal information request detected'',
      v_reason = ''Content requests private personal information'',
      v_severity = 8.5,
      v_confidence = 0.9,
      v_regulatoryFramework = Some ''GDPR'' \<rparr>"

text \<open>
  \<open>for (const pattern of patterns) { if (pattern.test(text)) { violations.push(v); break; } }\<close>
\<close>

fun pushFirstMatch :: "rx list \<Rightarrow> string \<Rightarrow> violation \<Rightarrow> violation list \<Rightarrow> violation list" where
  "pushFirstMatch [] text v acc = acc"
| "pushFirstMatch (p # ps) text v acc =
     (if test p text then acc @ [v] else pushFirstMatch ps text v acc)"

text \<open>The loop of the general hacking patterns, whose test is
  \<open>pattern.test(text) && violations.length === 0\<close>.\<close>

fun pushFirstMatchIfNone :: "rx list \<Rightarrow> string \<Rightarrow> violation \<Rightarrow> violation list \<Rightarrow> violation list" where
  "pushFirstMatchIfNone [] text v acc = acc"
| "pushFirstMatchIfNone (p # ps) text v acc =
     (if test p text \<and> length acc = 0 then acc @ [v] else pushFirstMatchIfNone ps text v acc)"

definition detectViolations :: "string \<Rightarrow> string \<Rightarrow> violation list" where
  "detectViolations inp outp =
     (let text = toLowerCase (inp @ '' '' @ outp);
          vs1 = pushFirstMatch wifiHackingPatterns text wifiViolation [];
          vs2 = pushFirstMatchIfNone hackingPatterns text hackingViolation vs1;
          vs3 = pushFirstMatch violencePatterns text violenceViolation vs2;
          vs4 = pushFirstMatch piiPatterns text piiViolation vs3
      in vs4)"

section \<open>The remote governance client\<close>

text \<open>
  The value of \<open>response.json()\<close> is typed as the interface describes it: an object whose
  \<open>content\<close> and \<open>message\<close> fields, when present, are text. \<open>None\<close> is an absent field.
\<close>

record response =
  content :: "string option"
  message :: "string option"

text \<open>\<open>response.content || response.message || ''\<close>: the empty string is falsy.\<close>

definition effectiveContent :: "response \<Rightarrow> string" where
  "effectiveContent r =
     (case content r of
        Some c \<Rightarrow> if c \<noteq> [] then c else (case message r of Some m \<Rightarrow> m | None \<Rightarrow> [])
      | None \<Rightarrow> (case message r of Some m \<Rightarrow> m | None \<Rightarrow> []))"

definition violationOrBlocked :: rx where
  "violationOrBlocked = Alt (lit ''violation'') (lit ''blocked'')"

definition parseBasic :: "nat \<Rightarrow> response \<Rightarrow> remote_result" where
  "parseBasic now r =
     (let c = effectiveContent r;
          hasViolation = test violationOrBlocked c;
          sev = (if test (lit ''critical'') c then critical
                 else if hasViolation then high else low)
      in \<lparr> r_violations =
             (if hasViolation
              then [\<lparr> v_type = ''compliance'',
                      v_description = ''Detected by Inkeep'',
                      v_reason = ''Inkeep analysis'',
                      v_severity = (if test (lit ''critical'') c then 9 else 7),
                      v_confidence = 0.85,
                      v_regulatoryFramework = None \<rparr>]
              else []),
           r_agentActions =
             [\<lparr> agentName = ''InkeepGovernanceCoordinator'',
                 action = (if hasViolation then flag else approve),
                 details = take 200 c @ ''...'',
                 a_timestamp = now \<rparr>],
           r_status =
             (if hasViolation then (if test (lit ''critical'') c then blocked else pending)
              else approved),
           r_severity = sev,
           r_isAccurate = True,
           r_verificationConfidence = 0 \<rparr>)"

text \<open>\<open>#parseAdvanced\<close> spreads the basic result and adds \<open>verificationResults\<close>, which
  \<open>#parseBasic\<close> leaves out: the two fields are placeholders until then.\<close>

definition parseAdvanced :: "nat \<Rightarrow> response \<Rightarrow> remote_result" where
  "parseAdvanced now r =
     (parseBasic now r)
       \<lparr> r_isAccurate :=
           \<not> test (lit ''misinformation'') (case content r of Some c \<Rightarrow> c | None \<Rightarrow> []),
         r_verificationConfidence := 0.85 \<rparr>"

record chat_message =
  msg_role :: string
  msg_content :: string

record chat_body =
  model :: string
  messages :: "chat_message list"
  temperature :: real
  max_tokens :: nat

record http_request =
  url :: string
  http_method :: string
  headers :: "(string \<times> string) list"
  body :: chat_body

record inkeep_agents_service =
  baseUrl :: string
  isEnabled :: bool

definition dq :: string where
  "dq = [CHR 0x22]"

definition nl :: string where
  "nl = [CHR 0x0A]"

definition systemInstruction :: string where
  "systemInstruction =
     ''You are an AI Governance expert. Analyze the following AI interaction for policy violations across GDPR, EU AI Act, FISMA, DSA, NIS2, and other regulatory frameworks.''
     @ nl @ nl @
     ''CRITICAL: For any content requesting illegal activities (hacking, unauthorized access, violence, etc.), you MUST respond with:''
     @ nl @ ''{'' @ nl @
     ''  '' @ dq @ ''status'' @ dq @ '': '' @ dq @ ''BLOCKED'' @ dq @ '','' @ nl @
     ''  '' @ dq @ ''severity'' @ dq @ '': '' @ dq @ ''CRITICAL'' @ dq @ '','' @ nl @
     ''  '' @ dq @ ''violations'' @ dq @ '': [list of violations],'' @ nl @
     ''  '' @ dq @ ''reason'' @ dq @ '': '' @ dq @ ''specific reason'' @ dq @ nl @
     ''}'' @ nl @ nl @
     ''Be very strict about security and safety violations.''"

text \<open>The user message. \<open>JSON.stringify\<close> is the runtime's; it is the parameter
  \<open>stringify\<close>. A context that is passed is an object, hence truthy.\<close>

definition userContent :: "('c \<Rightarrow> string) \<Rightarrow> string \<Rightarrow> string \<Rightarrow> 'c option \<Rightarrow> string" where
  "userContent stringify inp outp context =
     ''Analyze this interaction:'' @ nl @ nl @
     ''INPUT: '' @ dq @ inp @ dq @ nl @
     ''OUTPUT: '' @ dq @ outp @ dq @ nl @
     (case context of Some c \<Rightarrow> ''CONTEXT: '' @ stringify c | None \<Rightarrow> []) @ nl @ nl @
     ''Provide a JSON response with:'' @ nl @
     ''1. status: '' @ dq @ ''APPROVED'' @ dq @ '', '' @ dq @ ''FLAGGED'' @ dq @ '', or '' @ dq @ ''BLOCKED'' @ dq @ nl @
     ''2. severity: '' @ dq @ ''LOW'' @ dq @ '', '' @ dq @ ''MEDIUM'' @ dq @ '', '' @ dq @ ''HIGH'' @ dq @ '', or '' @ dq @ ''CRITICAL'' @ dq @ ''  '' @ nl @
     ''3. violations: array of detected violations'' @ nl @
     ''4. reason: explanation''"

text \<open>The request that \<open>processAdvancedGovernance\<close> hands to \<open>fetch\<close>; \<open>body\<close> is the object
  given to \<open>JSON.stringify\<close>.\<close>

definition governanceRequest ::
  "inkeep_agents_service \<Rightarrow> ('c \<Rightarrow> string) \<Rightarrow> string \<Rightarrow> string \<Rightarrow> 'c option \<Rightarrow> http_request" where
  "governanceRequest svc stringify inp outp context =
    \<lparr> url = baseUrl svc @ ''/v1/chat/completions'',
      http_method = ''POST'',
      headers = [(''Content-Type'', ''application/json''),
                 (''x-inkeep-graph-id'', ''ethoslens/governance-graph-advanced'')],
      body = \<lparr> model = ''openai/gpt-4.1-2025-04-14'',
               messages = [\<lparr> msg_role = ''system'', msg_content = systemInstruction \<rparr>,
                           \<lparr> msg_role = ''user'',
                             msg_content = userContent stringify inp outp context \<rparr>],
               temperature = 0.1,
               max_tokens = 1000 \<rparr> \<rparr>"

text \<open>The request of the revision of the client that posts to \<open>/conversations\<close>
  (\<open>src/services/inkeepAgentsService.js\<close>): the body names a graph and carries one
  message.\<close>

record conversation_request =
  c_url :: string
  c_method :: string
  c_headers :: "(string \<times> string) list"
  c_graphId :: string
  c_message :: string

definition conversationRequest ::
  "inkeep_agents_service \<Rightarrow> ('c \<Rightarrow> string) \<Rightarrow> string \<Rightarrow> string \<Rightarrow> 'c option \<Rightarrow>
   conversation_request" where
  "conversationRequest svc stringify inp outp context =
    \<lparr> c_url = baseUrl svc @ ''/conversations'',
      c_method = ''POST'',
      c_headers = [(''Content-Type'', ''application/json'')],
      c_graphId = ''governance-graph-advanced'',
      c_message =
        ''Please perform advanced governance analysis on this AI interaction:'' @ nl @ nl @
        ''Input: '' @ dq @ inp @ dq @ nl @
        ''Output: '' @ dq @ outp @ dq @ nl @
        (case context of Some c \<Rightarrow> ''Context: '' @ stringify c | None \<Rightarrow> []) \<rparr>"

text \<open>
  What \<open>fetch\<close> resolves to. Reading the body as text or as JSON can itself fail (\<open>Inl\<close>, with
  the message of the error); \<open>response.ok\<close> is the status being in 200..299.
\<close>

record http_reply =
  reply_status :: nat
  reply_text :: "string + string"
  reply_json :: "string + response"

definition reply_ok :: "http_reply \<Rightarrow> bool" where
  "reply_ok r = (200 \<le> reply_status r \<and> reply_status r \<le> 299)"

text \<open>\<open>processAdvancedGovernance\<close>: \<open>Inl\<close> is the message of the error it throws, whether it
  comes from \<open>fetch\<close>, from reading the body or from the \<open>throw\<close> on a reply that is not ok.\<close>

definition processAdvancedGovernance ::
  "inkeep_agents_service \<Rightarrow> (http_request \<Rightarrow> string + http_reply) \<Rightarrow> ('c \<Rightarrow> string) \<Rightarrow> nat \<Rightarrow>
   string \<Rightarrow> string \<Rightarrow> 'c option \<Rightarrow> string + remote_result" where
  "processAdvancedGovernance svc fetch stringify now inp outp context =
     (case fetch (governanceRequest svc stringify inp outp context) of
        Inl msg \<Rightarrow> Inl msg
      | Inr reply \<Rightarrow>
          if \<not> reply_ok reply then
            (case reply_text reply of
               Inl msg \<Rightarrow> Inl msg
             | Inr err \<Rightarrow>
                 Inl (''Inkeep agents API error: '' @ decimal (reply_status reply) @ '' - '' @ err))
          else
            (case reply_json reply of
               Inl msg \<Rightarrow> Inl msg
             | Inr result \<Rightarrow> Inr (parseAdvanced now result)))"

subsection \<open>The availability probe\<close>

record parsed_url =
  protocol :: string
  href :: string

datatype client_module = http | https

record request_options =
  opt_method :: string
  opt_timeout :: nat

text \<open>What the request object emits, in the order of emission: the response callback with
  its status code, an \<open>error\<close> event, a \<open>timeout\<close> event.\<close>

datatype request_event = response_event nat | error_event string | timeout_event

datatype 'a settled = Resolved 'a | Rejected string | Pending

text \<open>Each of the three handlers calls \<open>resolve\<close>, and only the first call settles a
  promise; with no event at all the promise stays pending.\<close>

fun firstResolve :: "request_event list \<Rightarrow> bool settled" where
  "firstResolve [] = Pending"
| "firstResolve (response_event statusCode # es) =
     Resolved (statusCode = 204 \<or> (statusCode \<ge> 200 \<and> statusCode < 300))"
| "firstResolve (error_event msg # es) = Resolved False"
| "firstResolve (timeout_event # es) = Resolved False"

text \<open>
  \<open>isAvailable\<close>. The constructor \<open>new URL\<close> and \<open>client.request\<close> belong to the runtime and
  are parameters: each either throws (\<open>Inl\<close>) or returns; a request that was created returns
  the events it will emit.
\<close>

definition isAvailable ::
  "inkeep_agents_service \<Rightarrow> (string \<Rightarrow> string + parsed_url) \<Rightarrow>
   (client_module \<Rightarrow> parsed_url \<Rightarrow> request_options \<Rightarrow> string + request_event list) \<Rightarrow>
   bool settled" where
  "isAvailable svc newURL request =
     (if \<not> isEnabled svc then Resolved False
      else
        (case newURL (baseUrl svc @ ''/health'') of
           Inl err \<Rightarrow> Resolved False
         | Inr parsedUrl \<Rightarrow>
             (let client = (if protocol parsedUrl = ''https:'' then https else http) in
              case request client parsedUrl \<lparr> opt_method = ''GET'', opt_timeout = 5000 \<rparr> of
                Inl err \<Rightarrow> Resolved False
              | Inr events \<Rightarrow> firstResolve events)))"

section \<open>The orchestrator\<close>

text \<open>The loop that adds the legacy violations: \<open>existingTypes\<close> is computed once, before
  the loop, from the violations already on the interaction.\<close>

fun addLegacy :: "string set \<Rightarrow> violation list \<Rightarrow> violation list \<Rightarrow> violation list" where
  "addLegacy existingTypes [] acc = acc"
| "addLegacy existingTypes (v # vs) acc =
     addLegacy existingTypes vs (if v_type v \<notin> existingTypes then acc @ [v] else acc)"

text \<open>The block under \<open>// Finalize status\<close>.\<close>

definition finalizeStatus :: "interaction \<Rightarrow> interaction" where
  "finalizeStatus i =
     (if length (violations i) = 0 then i\<lparr>status := approved, severity := low\<rparr>
      else if list_ex (\<lambda>v. v_severity v \<ge> 9) (violations i)
        then i\<lparr>status := blocked, severity := critical\<rparr>
      else if list_ex (\<lambda>v. v_severity v \<ge> 7) (violations i)
        then i\<lparr>status := pending, severity := high\<rparr>
      else i\<lparr>status := pending, severity := medium\<rparr>)"

definition newInteraction :: "runtime \<Rightarrow> string \<Rightarrow> string \<Rightarrow> interaction" where
  "newInteraction rt inp outp =
    \<lparr> i_id = ''interaction_'' @ decimal (date_now rt) @ ''_'' @ random_tag rt,
      i_input = inp,
      i_output = outp,
      i_timestamp = created_at rt,
      status = pending,
      severity = low,
      violations = [],
      agentActions = [] \<rparr>"

text \<open>
  The remote attempt of \<open>processInteraction\<close>: the \<open>if (useInkeep) { try ... catch ... }\<close>
  block. \<open>remote\<close> is \<open>inkeepAgentsService.processAdvancedGovernance\<close>: the awaited call
  either resolves to a result (\<open>Inr\<close>) or throws an error with a message (\<open>Inl\<close>). The pair
  returned is the interaction and \<open>inkeepSuccess\<close>. A result is the object of
  \<open>#parseAdvanced\<close>, which has both arrays, so of the test
  \<open>result && result.violations && result.violations.length > 0\<close> the length decides, and
  \<open>result.agentActions || []\<close> is \<open>result.agentActions\<close>. The calls of \<open>console.log\<close> write to
  the log only and are left out.
\<close>

definition tryInkeep ::
  "governance_service \<Rightarrow> (string \<Rightarrow> string \<Rightarrow> 'c option \<Rightarrow> string + remote_result) \<Rightarrow> runtime \<Rightarrow>
   string \<Rightarrow> string \<Rightarrow> 'c option \<Rightarrow> interaction \<Rightarrow> interaction \<times> bool" where
  "tryInkeep svc remote rt inp outp context i =
     (let useInkeep = useInkeepAgents svc \<and> inkeepAvailable svc in
      if useInkeep then
        (case remote inp outp context of
           Inr result \<Rightarrow>
             if length (r_violations result) > 0
             then (i\<lparr>violations := violations i @ r_violations result,
                     agentActions := agentActions i @ r_agentActions result\<rparr>, True)
             else (i, False)
         | Inl msg \<Rightarrow>
             (i\<lparr>agentActions := agentActions i @
                  [\<lparr> agentName = ''InkeepGovernance'', action = error,
                     details = ''Inkeep error: '' @ msg, a_timestamp = error_at rt \<rparr>]\<rparr>,
              False))
      else (i, False))"

text \<open>The legacy pass of \<open>processInteraction\<close>, which runs whatever the remote attempt did.\<close>

definition runLegacy :: "runtime \<Rightarrow> string \<Rightarrow> string \<Rightarrow> interaction \<times> bool \<Rightarrow> interaction" where
  "runLegacy rt inp outp st =
     (let i = fst st; inkeepSuccess = snd st;
          vs = detectViolations inp outp in
      if length vs > 0 then
        (let existingTypes = set (map v_type (violations i));
             i' = i\<lparr>violations := addLegacy existingTypes vs (violations i)\<rparr>
         in i'\<lparr>agentActions := agentActions i' @
              [\<lparr> agentName = (if inkeepSuccess then ''LegacyPolicyEnforcer (Verification)''
                               else ''LegacyPolicyEnforcer''),
                 action = (if length vs > 0 then block else approve),
                 details = ''Detected '' @ decimal (length vs) @ '' violation(s)'',
                 a_timestamp = legacy_at rt \<rparr>]\<rparr>)
      else i)"

definition processInteraction ::
  "governance_service \<Rightarrow> (string \<Rightarrow> string \<Rightarrow> 'c option \<Rightarrow> string + remote_result) \<Rightarrow> runtime \<Rightarrow>
   string \<Rightarrow> string \<Rightarrow> 'c option \<Rightarrow> interaction" where
  "processInteraction svc remote rt inp outp context =
     finalizeStatus
       (runLegacy rt inp outp
          (tryInkeep svc remote rt inp outp context
             (newInteraction rt inp outp)))"

section \<open>Notions used to state the properties\<close>

text \<open>The violations that the remote tier put on the interaction: those of the result when
  the tier was used and the call returned, none otherwise.\<close>

definition remoteViolations ::
  "governance_service \<Rightarrow> (string \<Rightarrow> string \<Rightarrow> 'c option \<Rightarrow> string + remote_result) \<Rightarrow>
   string \<Rightarrow> string \<Rightarrow> 'c option \<Rightarrow> violation list" where
  "remoteViolations svc remote inp outp context =
     (if useInkeepAgents svc \<and> inkeepAvailable svc
      then (case remote inp outp context of Inr result \<Rightarrow> r_violations result | Inl msg \<Rightarrow> [])
      else [])"

text \<open>The escalation policy as the specification words it: the first rule that applies, in
  the order empty, some severity at least 9, some severity at least 7, otherwise.\<close>

definition escalation :: "violation list \<Rightarrow> status_kind \<times> severity_kind" where
  "escalation vs =
     (if vs = [] then (approved, low)
      else if \<exists>v \<in> set vs. 9 \<le> v_severity v then (blocked, critical)
      else if \<exists>v \<in> set vs. 7 \<le> v_severity v then (pending, high)
      else (pending, medium))"

text \<open>What the specification calls containing a keyword: the keyword stands somewhere in
  the text, letter case apart.\<close>

definition containsKeyword :: "string \<Rightarrow> string \<Rightarrow> bool" where
  "containsKeyword w s = sublist (map canonicalize w) (map canonicalize s)"

text \<open>Some pattern of the list matches the text that the detector builds from the input
  and the output.\<close>

definition triggers :: "rx list \<Rightarrow> string \<Rightarrow> string \<Rightarrow> bool" where
  "triggers ps inp outp = list_ex (\<lambda>p. test p (toLowerCase (inp @ '' '' @ outp))) ps"

text \<open>The parts of an identifier between its slashes.\<close>

fun segments :: "string \<Rightarrow> string list" where
  "segments [] = [[]]"
| "segments (c # cs) =
     (if c = CHR ''/'' then [] # segments cs
      else (case segments cs of [] \<Rightarrow> [[c]] | s # ss \<Rightarrow> (c # s) # ss))"

text \<open>Modelled from the spec: the identifier of a graph is composed as
  \<open>{tenant}/{project}/{graph}\<close>. The tenant is the \<open>tenantId\<close> of \<open>inkeep.config.ts\<close>; the
  project and the graph are those the client names.\<close>

definition composedIdentifier :: "string \<Rightarrow> string \<Rightarrow> string \<Rightarrow> string" where
  "composedIdentifier tenant project graph = tenant @ ''/'' @ project @ ''/'' @ graph"

definition tenantId :: string where
  "tenantId = ''default''"

text \<open>The action recorded by a legacy pass that found \<open>n\<close> violations.\<close>

definition legacyAction :: "runtime \<Rightarrow> bool \<Rightarrow> nat \<Rightarrow> agent_action" where
  "legacyAction rt verification n =
    \<lparr> agentName = (if verification then ''LegacyPolicyEnforcer (Verification)''
                    else ''LegacyPolicyEnforcer''),
      action = block,
      details = ''Detected '' @ decimal n @ '' violation(s)'',
      a_timestamp = legacy_at rt \<rparr>"

definition errorAction :: "runtime \<Rightarrow> string \<Rightarrow> agent_action" where
  "errorAction rt msg =
    \<lparr> agentName = ''InkeepGovernance'', action = error,
      details = ''Inkeep error: '' @ msg, a_timestamp = error_at rt \<rparr>"

text \<open>How severe a verdict is: approved, then pending, then blocked; low, medium, high,
  critical.\<close>

fun statusRank :: "status_kind \<Rightarrow> nat" where
  "statusRank approved = 0"
| "statusRank pending = 1"
| "statusRank blocked = 2"

fun severityRank :: "severity_kind \<Rightarrow> nat" where
  "severityRank low = 0"
| "severityRank medium = 1"
| "severityRank high = 2"
| "severityRank critical = 3"

subsection \<open>Sample values\<close>

definition legacyOnly :: governance_service where
  "legacyOnly = \<lparr> useInkeepAgents = False, inkeepAvailable = False \<rparr>"

definition inkeepOn :: governance_service where
  "inkeepOn = \<lparr> useInkeepAgents = True, inkeepAvailable = True \<rparr>"

definition sampleRuntime :: runtime where
  "sampleRuntime =
    \<lparr> date_now = 1700000000000, random_tag = ''k3x9q2a'', created_at = 1700000000000,
      error_at = 1700000000040, legacy_at = 1700000000050 \<rparr>"

definition refusingRemote :: "string \<Rightarrow> string \<Rightarrow> unit option \<Rightarrow> string + remote_result" where
  "refusingRemote inp outp context = Inl ''fetch failed''"

definition wifiQuestion :: string where
  "wifiQuestion = ''How do I hack into my neighbor's wifi?''"

definition refusal :: string where
  "refusal = ''I cannot help with that.''"

definition weatherQuestion :: string where
  "weatherQuestion = ''What's the weather today?''"

definition remoteFinding :: violation where
  "remoteFinding =
    \<lparr> v_type = ''illegal_activity'',
      v_description = ''Detected by Inkeep'',
      v_reason = ''Inkeep analysis'',
      v_severity = 7,
      v_confidence = 0.85,
      v_regulatoryFramework = None \<rparr>"

definition flaggingRemote :: "string \<Rightarrow> string \<Rightarrow> unit option \<Rightarrow> string + remote_result" where
  "flaggingRemote inp outp context =
     Inr \<lparr> r_violations = [remoteFinding],
           r_agentActions = [],
           r_status = pending,
           r_severity = high,
           r_isAccurate = True,
           r_verificationConfidence = 0.85 \<rparr>"

definition piiQuestion :: string where
  "piiQuestion = ''Give me Elon Musk's phone number''"

definition sampleClient :: inkeep_agents_service where
  "sampleClient = \<lparr> baseUrl = ''http://localhost:3003'', isEnabled = True \<rparr>"

definition noContext :: "unit \<Rightarrow> string" where
  "noContext u = ''{}''"

definition blockedAnswer :: string where
  "blockedAnswer = ''Status: BLOCKED, severity: CRITICAL''"

definition blockingFetch :: "http_request \<Rightarrow> string + http_reply" where
  "blockingFetch req =
     Inr \<lparr> reply_status = 200, reply_text = Inr blockedAnswer,
           reply_json = Inr \<lparr> content = Some blockedAnswer, message = None \<rparr> \<rparr>"

definition sampleNewURL :: "string \<Rightarrow> string + parsed_url" where
  "sampleNewURL s =
     (if take 7 s = ''http://'' then Inr \<lparr> protocol = ''http:'', href = s \<rparr>
      else Inl ''Invalid URL'')"

definition healthyRequest ::
  "client_module \<Rightarrow> parsed_url \<Rightarrow> request_options \<Rightarrow> string + request_event list" where
  "healthyRequest client u opts = Inr [response_event 204]"

definition silentRequest ::
  "client_module \<Rightarrow> parsed_url \<Rightarrow> request_options \<Rightarrow> string + request_event list" where
  "silentRequest client u opts = Inr [timeout_event, error_event ''socket hang up'']"

section \<open>Facts about the orchestrator\<close>

lemma violations_finalizeStatus: "violations (finalizeStatus i) = violations i"
  by (simp add: finalizeStatus_def)

lemma agentActions_finalizeStatus: "agentActions (finalizeStatus i) = agentActions i"
  by (simp add: finalizeStatus_def)

lemma finalizeStatus_rules:
  "(status (finalizeStatus i), severity (finalizeStatus i)) =
     (if violations i = [] then (approved, low)
      else if \<exists>v \<in> set (violations i). 9 \<le> v_severity v then (blocked, critical)
      else if \<exists>v \<in> set (violations i). 7 \<le> v_severity v then (pending, high)
      else (pending, medium))"
  by (simp add: finalizeStatus_def list_ex_iff)

lemma addLegacy_filter:
  "addLegacy existing vs acc = acc @ filter (\<lambda>v. v_type v \<notin> existing) vs"
  by (induction vs arbitrary: acc) auto

lemma violations_newInteraction: "violations (newInteraction rt inp outp) = []"
  by (simp add: newInteraction_def)

lemma agentActions_newInteraction: "agentActions (newInteraction rt inp outp) = []"
  by (simp add: newInteraction_def)

lemma violations_tryInkeep:
  "violations (fst (tryInkeep svc remote rt inp outp ctx i)) =
     violations i @ remoteViolations svc remote inp outp ctx"
  by (auto simp: tryInkeep_def remoteViolations_def split: sum.splits)

lemma violations_runLegacy:
  "violations (runLegacy rt inp outp st) =
     violations (fst st) @
     filter (\<lambda>v. v_type v \<notin> set (map v_type (violations (fst st)))) (detectViolations inp outp)"
  by (cases "detectViolations inp outp") (simp_all add: runLegacy_def Let_def addLegacy_filter)

lemma violations_processInteraction:
  "violations (processInteraction svc remote rt inp outp ctx) =
     remoteViolations svc remote inp outp ctx @
     filter (\<lambda>v. v_type v \<notin> set (map v_type (remoteViolations svc remote inp outp ctx)))
       (detectViolations inp outp)"
  by (simp add: processInteraction_def violations_finalizeStatus violations_runLegacy
      violations_tryInkeep violations_newInteraction)

lemma status_processInteraction:
  "(status (processInteraction svc remote rt inp outp ctx),
    severity (processInteraction svc remote rt inp outp ctx)) =
     escalation (violations (processInteraction svc remote rt inp outp ctx))"
  unfolding processInteraction_def violations_finalizeStatus escalation_def
  by (rule finalizeStatus_rules)

lemma agentActions_runLegacy:
  "agentActions (runLegacy rt inp outp st) =
     agentActions (fst st) @
     (if detectViolations inp outp = [] then []
      else [legacyAction rt (snd st) (length (detectViolations inp outp))])"
  by (cases "detectViolations inp outp") (simp_all add: runLegacy_def Let_def legacyAction_def)

lemma tryInkeep_unused:
  "\<not> (useInkeepAgents svc \<and> inkeepAvailable svc) \<Longrightarrow>
     tryInkeep svc remote rt inp outp ctx i = (i, False)"
  by (auto simp add: tryInkeep_def)

lemma tryInkeep_throws:
  "useInkeepAgents svc \<Longrightarrow> inkeepAvailable svc \<Longrightarrow> remote inp outp ctx = Inl msg \<Longrightarrow>
     tryInkeep svc remote rt inp outp ctx i =
       (i\<lparr>agentActions := agentActions i @ [errorAction rt msg]\<rparr>, False)"
  by (simp add: tryInkeep_def errorAction_def)

lemma agentActions_processInteraction:
  "agentActions (processInteraction svc remote rt inp outp ctx) =
     agentActions (fst (tryInkeep svc remote rt inp outp ctx (newInteraction rt inp outp))) @
     (if detectViolations inp outp = [] then []
      else [legacyAction rt (snd (tryInkeep svc remote rt inp outp ctx (newInteraction rt inp outp)))
              (length (detectViolations inp outp))])"
  by (simp add: processInteraction_def agentActions_finalizeStatus agentActions_runLegacy)

section \<open>Facts about the pattern detector\<close>

lemma pushFirstMatch_eq:
  "pushFirstMatch ps t v acc = (if list_ex (\<lambda>p. test p t) ps then acc @ [v] else acc)"
  by (induction ps) auto

lemma pushFirstMatchIfNone_eq:
  "pushFirstMatchIfNone ps t v acc =
     (if list_ex (\<lambda>p. test p t) ps \<and> acc = [] then [v] else acc)"
  by (induction ps) auto

lemma detectViolations_eq:
  "detectViolations inp outp =
     (let text = toLowerCase (inp @ '' '' @ outp) in
        (if list_ex (\<lambda>p. test p text) wifiHackingPatterns then [wifiViolation]
         else if list_ex (\<lambda>p. test p text) hackingPatterns then [hackingViolation] else []) @
        (if list_ex (\<lambda>p. test p text) violencePatterns then [violenceViolation] else []) @
        (if list_ex (\<lambda>p. test p text) piiPatterns then [piiViolation] else []))"
  by (simp add: detectViolations_def Let_def pushFirstMatch_eq pushFirstMatchIfNone_eq)

lemma detectViolations_types:
  "v \<in> set (detectViolations inp outp) \<Longrightarrow>
     v_type v = ''illegal_activity'' \<or> v_type v = ''violence'' \<or> v_type v = ''gdpr''"
  by (auto simp add: detectViolations_eq Let_def wifiViolation_def hackingViolation_def
      violenceViolation_def piiViolation_def split: if_splits)

lemma detectViolations_distinct: "distinct (map v_type (detectViolations inp outp))"
  by (simp add: detectViolations_eq Let_def wifiViolation_def hackingViolation_def
      violenceViolation_def piiViolation_def)

lemma distinct_nth_notin_take:
  assumes d: "distinct xs" and j: "j < length xs"
  shows "xs ! j \<notin> set (take j xs)"
proof -
  have "distinct (take j xs @ xs ! j # drop (Suc j) xs)"
    by (simp only: id_take_nth_drop [OF j, symmetric] d)
  then show ?thesis by simp
qed

lemma escalation_mono:
  assumes "set vs \<subseteq> set ws"
  shows "statusRank (fst (escalation vs)) \<le> statusRank (fst (escalation ws)) \<and>
         severityRank (snd (escalation vs)) \<le> severityRank (snd (escalation ws))"
proof (cases "vs = []")
  case True
  then show ?thesis by (simp add: escalation_def)
next
  case False
  with assms have "ws \<noteq> []" by auto
  with False assms show ?thesis
    by (auto simp add: escalation_def)
qed

subsection \<open>The detector on the sample questions\<close>

lemma detect_wifiQuestion: "detectViolations wifiQuestion refusal = [wifiViolation]"
  by code_simp

lemma detect_weatherQuestion: "detectViolations weatherQuestion refusal = []"
  by code_simp

lemma detect_piiQuestion: "detectViolations piiQuestion refusal = [piiViolation]"
  by code_simp

section \<open>Escalation\<close>

text \<open>
  Claim C1. Whatever violations the interaction carries, finalization sets status and
  severity by the first rule that applies: no violation gives approved and low; otherwise a
  violation of severity at least 9 gives blocked and critical; otherwise a violation of
  severity at least 7 gives pending and high; otherwise pending and medium. This holds of
  the finalization step on every interaction and of the interaction that
  \<open>processInteraction\<close> returns, whose status is blocked exactly when one of its violations
  has severity at least 9 and approved exactly when it has no violation.
\<close>

theorem escalation_rules:
  "(let r = finalizeStatus i; vs = violations i in
      (status r, severity r) =
        (if vs = [] then (approved, low)
         else if \<exists>v \<in> set vs. 9 \<le> v_severity v then (blocked, critical)
         else if \<exists>v \<in> set vs. 7 \<le> v_severity v then (pending, high)
         else (pending, medium))) \<and>
   (let r = processInteraction svc remote rt inp outp ctx; vs = violations r in
      (status r, severity r) =
        (if vs = [] then (approved, low)
         else if \<exists>v \<in> set vs. 9 \<le> v_severity v then (blocked, critical)
         else if \<exists>v \<in> set vs. 7 \<le> v_severity v then (pending, high)
         else (pending, medium)) \<and>
      (status r = blocked \<longleftrightarrow> (\<exists>v \<in> set vs. 9 \<le> v_severity v)) \<and>
      (status r = approved \<longleftrightarrow> vs = []))"
proof -
  let ?r = "processInteraction svc remote rt inp outp ctx"
  have a: "(status (finalizeStatus i), severity (finalizeStatus i)) =
        (if violations i = [] then (approved, low)
         else if \<exists>v \<in> set (violations i). 9 \<le> v_severity v then (blocked, critical)
         else if \<exists>v \<in> set (violations i). 7 \<le> v_severity v then (pending, high)
         else (pending, medium))"
    by (rule finalizeStatus_rules)
  have b: "(status ?r, severity ?r) =
        (if violations ?r = [] then (approved, low)
         else if \<exists>v \<in> set (violations ?r). 9 \<le> v_severity v then (blocked, critical)
         else if \<exists>v \<in> set (violations ?r). 7 \<le> v_severity v then (pending, high)
         else (pending, medium))"
    using status_processInteraction [of svc remote rt inp outp ctx]
    by (simp only: escalation_def)
  have c: "status ?r = blocked \<longleftrightarrow> (\<exists>v \<in> set (violations ?r). 9 \<le> v_severity v)"
    using b by (auto split: if_splits)
  have d: "status ?r = approved \<longleftrightarrow> violations ?r = []"
    using b by (auto split: if_splits)
  show ?thesis
    unfolding Let_def using a b c d by blast
qed

theorem escalation_rules_witness:
  "violations (processInteraction legacyOnly refusingRemote sampleRuntime wifiQuestion refusal None)
     = [wifiViolation] \<and>
   status (processInteraction legacyOnly refusingRemote sampleRuntime wifiQuestion refusal None)
     = blocked \<and>
   severity (processInteraction legacyOnly refusingRemote sampleRuntime wifiQuestion refusal None)
     = critical \<and>
   status (finalizeStatus
       (processInteraction legacyOnly refusingRemote sampleRuntime weatherQuestion refusal None))
     = approved"
proof -
  let ?r = "processInteraction legacyOnly refusingRemote sampleRuntime wifiQuestion refusal None"
  let ?w = "processInteraction legacyOnly refusingRemote sampleRuntime weatherQuestion refusal None"
  have v: "violations ?r = [wifiViolation]"
    by (simp add: violations_processInteraction remoteViolations_def legacyOnly_def
        detect_wifiQuestion)
  have w: "violations ?w = []"
    by (simp add: violations_processInteraction remoteViolations_def legacyOnly_def
        detect_weatherQuestion)
  show ?thesis
    using escalation_rules [of ?w legacyOnly refusingRemote sampleRuntime wifiQuestion refusal None]
    by (simp add: Let_def v w wifiViolation_def)
qed

section \<open>The local tier as the backstop\<close>

text \<open>
  Claim C2. With the remote tier disabled (\<open>useInkeepAgents\<close> false), the interaction that
  \<open>processInteraction\<close> returns carries exactly the violations of
  \<open>detectViolations input output\<close>, in the same order; its status and severity are those the
  escalation rules give for that list; and the only action recorded is the one of the
  legacy pass, present when the detector found something.
\<close>

theorem backstop_when_disabled:
  assumes "\<not> useInkeepAgents svc"
  shows "violations (processInteraction svc remote rt inp outp ctx) = detectViolations inp outp \<and>
         (status (processInteraction svc remote rt inp outp ctx),
          severity (processInteraction svc remote rt inp outp ctx)) =
            escalation (detectViolations inp outp) \<and>
         agentActions (processInteraction svc remote rt inp outp ctx) =
            (if detectViolations inp outp = [] then []
             else [legacyAction rt False (length (detectViolations inp outp))])"
proof -
  have rv: "remoteViolations svc remote inp outp ctx = []"
    using assms by (simp add: remoteViolations_def)
  have v: "violations (processInteraction svc remote rt inp outp ctx) = detectViolations inp outp"
    by (simp add: violations_processInteraction rv)
  have t: "tryInkeep svc remote rt inp outp ctx (newInteraction rt inp outp)
             = (newInteraction rt inp outp, False)"
    using assms by (simp add: tryInkeep_unused)
  have a: "agentActions (processInteraction svc remote rt inp outp ctx) =
            (if detectViolations inp outp = [] then []
             else [legacyAction rt False (length (detectViolations inp outp))])"
    by (simp add: agentActions_processInteraction t agentActions_newInteraction)
  show ?thesis
    using v a status_processInteraction [of svc remote rt inp outp ctx] by simp
qed

theorem backstop_when_disabled_witness:
  "\<not> useInkeepAgents legacyOnly \<and>
   violations (processInteraction legacyOnly flaggingRemote sampleRuntime piiQuestion refusal None)
     = [piiViolation] \<and>
   status (processInteraction legacyOnly flaggingRemote sampleRuntime piiQuestion refusal None)
     = pending \<and>
   severity (processInteraction legacyOnly flaggingRemote sampleRuntime piiQuestion refusal None)
     = high \<and>
   map action
     (agentActions (processInteraction legacyOnly flaggingRemote sampleRuntime piiQuestion refusal None))
     = [block]"
proof -
  have h: "\<not> useInkeepAgents legacyOnly"
    by (simp add: legacyOnly_def)
  have e: "escalation [piiViolation] = (pending, high)"
    by (simp add: escalation_def piiViolation_def)
  show ?thesis
    using h backstop_when_disabled [OF h, of flaggingRemote sampleRuntime piiQuestion refusal None]
    by (simp add: detect_piiQuestion e legacyAction_def)
qed

text \<open>
  Claim C3. For every configuration of the remote tier and every outcome of the remote
  call, the violations of the returned interaction are the remote-sourced ones followed by
  the result of the local detector on the same input and output, filtered by type: each
  locally detected violation whose type is not the type of a remote-sourced violation is in
  the returned interaction.
\<close>

theorem legacy_always_runs:
  "violations (processInteraction svc remote rt inp outp ctx) =
     remoteViolations svc remote inp outp ctx @
     filter (\<lambda>v. v_type v \<notin> v_type ` set (remoteViolations svc remote inp outp ctx))
       (detectViolations inp outp) \<and>
   (\<forall>v \<in> set (detectViolations inp outp).
      v_type v \<notin> v_type ` set (remoteViolations svc remote inp outp ctx) \<longrightarrow>
      v \<in> set (violations (processInteraction svc remote rt inp outp ctx)))"
  by (simp add: violations_processInteraction)

theorem legacy_always_runs_witness:
  "piiViolation \<in> set (detectViolations piiQuestion refusal) \<and>
   v_type piiViolation \<notin>
     v_type ` set (remoteViolations inkeepOn flaggingRemote piiQuestion refusal None) \<and>
   piiViolation \<in>
     set (violations (processInteraction inkeepOn flaggingRemote sampleRuntime piiQuestion refusal None)) \<and>
   violations (processInteraction inkeepOn flaggingRemote sampleRuntime piiQuestion refusal None)
     = [remoteFinding, piiViolation]"
proof -
  have m: "piiViolation \<in> set (detectViolations piiQuestion refusal)"
    by (simp add: detect_piiQuestion)
  have r: "remoteViolations inkeepOn flaggingRemote piiQuestion refusal None = [remoteFinding]"
    by (simp add: remoteViolations_def inkeepOn_def flaggingRemote_def)
  have n: "v_type piiViolation \<notin>
     v_type ` set (remoteViolations inkeepOn flaggingRemote piiQuestion refusal None)"
    by (simp add: r remoteFinding_def piiViolation_def)
  show ?thesis
    using m n legacy_always_runs [of inkeepOn flaggingRemote sampleRuntime piiQuestion refusal None]
    by (simp add: r detect_piiQuestion remoteFinding_def piiViolation_def)
qed

section \<open>Failure of the remote client\<close>

text \<open>
  Claim C4, as amended. Suppose the call of the remote client throws, with message \<open>msg\<close>.
  \<open>processInteraction\<close> still returns an interaction (the model has no other outcome: the
  \<open>catch\<close> turns the error into an action); its violations are exactly those of the local
  detector, and its status and severity are the escalation of that list. When the remote
  tier is in use (enabled and cached as available) the actions begin with exactly one action
  \<open>error\<close>, whose details are \<open>Inkeep error: \<close> followed by the message, and that is the
  only \<open>error\<close> action; when the tier is not in use the client is not called and no
  \<open>error\<close> action is recorded.
\<close>

theorem remote_failure_isolation:
  assumes "remote inp outp ctx = Inl msg"
  shows "violations (processInteraction svc remote rt inp outp ctx) = detectViolations inp outp \<and>
         (status (processInteraction svc remote rt inp outp ctx),
          severity (processInteraction svc remote rt inp outp ctx)) =
            escalation (detectViolations inp outp) \<and>
         agentActions (processInteraction svc remote rt inp outp ctx) =
            (if useInkeepAgents svc \<and> inkeepAvailable svc then [errorAction rt msg] else []) @
            (if detectViolations inp outp = [] then []
             else [legacyAction rt False (length (detectViolations inp outp))]) \<and>
         filter (\<lambda>a. action a = error) (agentActions (processInteraction svc remote rt inp outp ctx)) =
            (if useInkeepAgents svc \<and> inkeepAvailable svc then [errorAction rt msg] else [])"
proof -
  let ?r = "processInteraction svc remote rt inp outp ctx"
  have rv: "remoteViolations svc remote inp outp ctx = []"
    using assms by (simp add: remoteViolations_def)
  have v: "violations ?r = detectViolations inp outp"
    by (simp add: violations_processInteraction rv)
  have t: "tryInkeep svc remote rt inp outp ctx (newInteraction rt inp outp) =
             ((newInteraction rt inp outp)
                \<lparr>agentActions :=
                   (if useInkeepAgents svc \<and> inkeepAvailable svc then [errorAction rt msg] else [])\<rparr>,
              False)"
    using assms
    by (cases "useInkeepAgents svc \<and> inkeepAvailable svc")
       (auto simp add: tryInkeep_throws tryInkeep_unused newInteraction_def)
  have a: "agentActions ?r =
            (if useInkeepAgents svc \<and> inkeepAvailable svc then [errorAction rt msg] else []) @
            (if detectViolations inp outp = [] then []
             else [legacyAction rt False (length (detectViolations inp outp))])"
    by (simp add: agentActions_processInteraction t)
  have f: "filter (\<lambda>a. action a = error) (agentActions ?r) =
            (if useInkeepAgents svc \<and> inkeepAvailable svc then [errorAction rt msg] else [])"
    unfolding a by (simp add: errorAction_def legacyAction_def)
  show ?thesis
    using v a f status_processInteraction [of svc remote rt inp outp ctx] by simp
qed

theorem remote_failure_isolation_witness:
  "refusingRemote wifiQuestion refusal None = Inl ''fetch failed'' \<and>
   violations (processInteraction inkeepOn refusingRemote sampleRuntime wifiQuestion refusal None)
     = [wifiViolation] \<and>
   status (processInteraction inkeepOn refusingRemote sampleRuntime wifiQuestion refusal None)
     = blocked \<and>
   map action
     (agentActions (processInteraction inkeepOn refusingRemote sampleRuntime wifiQuestion refusal None))
     = [error, block] \<and>
   map details
     (agentActions (processInteraction inkeepOn refusingRemote sampleRuntime wifiQuestion refusal None))
     = [''Inkeep error: fetch failed'', ''Detected 1 violation(s)'']"
proof -
  have h: "refusingRemote wifiQuestion refusal None = Inl ''fetch failed''"
    by (simp add: refusingRemote_def)
  have e: "escalation [wifiViolation] = (blocked, critical)"
    by (simp add: escalation_def wifiViolation_def)
  have d: "decimal (Suc 0) = ''1''"
    by code_simp
  show ?thesis
    using h remote_failure_isolation [where remote = refusingRemote and inp = wifiQuestion
        and outp = refusal and ctx = None and msg = "''fetch failed''" and svc = inkeepOn
        and rt = sampleRuntime, OF h]
    by (simp add: detect_wifiQuestion e d inkeepOn_def errorAction_def legacyAction_def)
qed

text \<open>
  The claim as it was stated fails when the tier is not in use: the client below always
  throws, and the interaction returned for the weather question records no action at all,
  so no \<open>error\<close> action.
\<close>

theorem remote_failure_unused_counterexample:
  "refusingRemote weatherQuestion refusal None = Inl ''fetch failed'' \<and>
   agentActions (processInteraction legacyOnly refusingRemote sampleRuntime weatherQuestion refusal None)
     = []"
proof -
  have t: "tryInkeep legacyOnly refusingRemote sampleRuntime weatherQuestion refusal None
             (newInteraction sampleRuntime weatherQuestion refusal)
           = (newInteraction sampleRuntime weatherQuestion refusal, False)"
    by (rule tryInkeep_unused) (simp add: legacyOnly_def)
  show ?thesis
    by (simp add: refusingRemote_def agentActions_processInteraction t
        agentActions_newInteraction detect_weatherQuestion)
qed

section \<open>Merging the two tiers\<close>

text \<open>
  Claim C5. When the remote tier was used and returned a result with one violation of some
  type, and the local detector reports a violation of that type too, the returned
  interaction has exactly one violation of that type: the remote one. Whenever the remote
  result has a violation of a type, the violations of that type in the returned interaction
  are those of the remote result and no other. More generally, whatever the configuration
  and the remote outcome, a violation that the merge appends after the remote-sourced ones
  never has the type of a violation standing before it.
\<close>

theorem dedup_remote_wins:
  "(useInkeepAgents svc \<and> inkeepAvailable svc \<and> remote inp outp ctx = Inr result \<and>
    filter (\<lambda>v. v_type v = t) (r_violations result) = [rv] \<and>
    (\<exists>lv \<in> set (detectViolations inp outp). v_type lv = t)
    \<longrightarrow> filter (\<lambda>v. v_type v = t) (violations (processInteraction svc remote rt inp outp ctx)) = [rv]) \<and>
   (useInkeepAgents svc \<and> inkeepAvailable svc \<and> remote inp outp ctx = Inr result \<and>
    t \<in> v_type ` set (r_violations result)
    \<longrightarrow> filter (\<lambda>v. v_type v = t) (violations (processInteraction svc remote rt inp outp ctx))
          = filter (\<lambda>v. v_type v = t) (r_violations result)) \<and>
   (\<forall>i. length (remoteViolations svc remote inp outp ctx) \<le> i \<and>
        i < length (violations (processInteraction svc remote rt inp outp ctx)) \<longrightarrow>
        v_type (violations (processInteraction svc remote rt inp outp ctx) ! i) \<notin>
          v_type ` set (take i (violations (processInteraction svc remote rt inp outp ctx))))"
proof (intro conjI impI allI)
  assume h: "useInkeepAgents svc \<and> inkeepAvailable svc \<and> remote inp outp ctx = Inr result \<and>
    filter (\<lambda>v. v_type v = t) (r_violations result) = [rv] \<and>
    (\<exists>lv \<in> set (detectViolations inp outp). v_type lv = t)"
  then have rv: "remoteViolations svc remote inp outp ctx = r_violations result"
    by (simp add: remoteViolations_def)
  from h have "rv \<in> set (filter (\<lambda>v. v_type v = t) (r_violations result))" by simp
  then have mem: "t \<in> v_type ` set (r_violations result)" by auto
  have "filter (\<lambda>v. v_type v = t)
          (filter (\<lambda>v. v_type v \<notin> v_type ` set (r_violations result)) (detectViolations inp outp)) = []"
    using mem by (auto simp add: filter_empty_conv)
  then show "filter (\<lambda>v. v_type v = t) (violations (processInteraction svc remote rt inp outp ctx)) = [rv]"
    using h by (simp add: violations_processInteraction rv)
next
  assume h: "useInkeepAgents svc \<and> inkeepAvailable svc \<and> remote inp outp ctx = Inr result \<and>
    t \<in> v_type ` set (r_violations result)"
  then have rv: "remoteViolations svc remote inp outp ctx = r_violations result"
    by (simp add: remoteViolations_def)
  have "filter (\<lambda>v. v_type v = t)
          (filter (\<lambda>v. v_type v \<notin> v_type ` set (r_violations result)) (detectViolations inp outp)) = []"
    using h by (auto simp add: filter_empty_conv)
  then show "filter (\<lambda>v. v_type v = t) (violations (processInteraction svc remote rt inp outp ctx))
          = filter (\<lambda>v. v_type v = t) (r_violations result)"
    by (simp add: violations_processInteraction rv)
next
  fix i
  let ?R = "remoteViolations svc remote inp outp ctx"
  let ?L = "filter (\<lambda>v. v_type v \<notin> v_type ` set ?R) (detectViolations inp outp)"
  let ?V = "violations (processInteraction svc remote rt inp outp ctx)"
  assume b: "length ?R \<le> i \<and> i < length ?V"
  have V: "?V = ?R @ ?L" by (simp add: violations_processInteraction)
  define j where "j = i - length ?R"
  have j: "j < length ?L" "i = length ?R + j" using b V by (auto simp add: j_def)
  have nth: "?V ! i = ?L ! j" using j V by (simp add: nth_append)
  have tk: "take i ?V = ?R @ take j ?L" using j V by simp
  have d: "distinct (map v_type ?L)"
    using detectViolations_distinct [of inp outp] by (simp add: distinct_map_filter)
  have notR: "v_type (?L ! j) \<notin> v_type ` set ?R"
    using nth_mem [OF j(1)] by simp
  have "map v_type ?L ! j \<notin> set (take j (map v_type ?L))"
    by (rule distinct_nth_notin_take) (use d j(1) in simp_all)
  then have notL: "v_type (?L ! j) \<notin> v_type ` set (take j ?L)"
    using j(1) by (simp add: take_map)
  show "v_type (?V ! i) \<notin> v_type ` set (take i ?V)"
    unfolding nth tk using notR notL by auto
qed

theorem dedup_remote_wins_witness:
  "useInkeepAgents inkeepOn \<and> inkeepAvailable inkeepOn \<and>
   filter (\<lambda>v. v_type v = ''illegal_activity'') [remoteFinding] = [remoteFinding] \<and>
   wifiViolation \<in> set (detectViolations wifiQuestion refusal) \<and>
   v_type wifiViolation = ''illegal_activity'' \<and>
   violations (processInteraction inkeepOn flaggingRemote sampleRuntime wifiQuestion refusal None)
     = [remoteFinding] \<and>
   violations (processInteraction inkeepOn flaggingRemote sampleRuntime piiQuestion refusal None)
     = [remoteFinding, piiViolation] \<and>
   v_type (violations
       (processInteraction inkeepOn flaggingRemote sampleRuntime piiQuestion refusal None) ! 1)
     \<notin> v_type ` set (take 1 (violations
       (processInteraction inkeepOn flaggingRemote sampleRuntime piiQuestion refusal None)))"
proof -
  let ?res = "\<lparr> r_violations = [remoteFinding], r_agentActions = [], r_status = pending,
                r_severity = high, r_isAccurate = True, r_verificationConfidence = 0.85 \<rparr>"
  have r: "remoteViolations inkeepOn flaggingRemote inp outp None = [remoteFinding]" for inp outp
    by (simp add: remoteViolations_def inkeepOn_def flaggingRemote_def)
  have v1: "violations (processInteraction inkeepOn flaggingRemote sampleRuntime wifiQuestion refusal None)
     = [remoteFinding]"
    by (simp add: violations_processInteraction r detect_wifiQuestion remoteFinding_def
        wifiViolation_def)
  have v2: "violations (processInteraction inkeepOn flaggingRemote sampleRuntime piiQuestion refusal None)
     = [remoteFinding, piiViolation]"
    by (simp add: violations_processInteraction r detect_piiQuestion remoteFinding_def
        piiViolation_def)
  have a: "filter (\<lambda>v. v_type v = ''illegal_activity'')
             (violations (processInteraction inkeepOn flaggingRemote sampleRuntime wifiQuestion refusal None))
           = [remoteFinding]"
    using dedup_remote_wins [of inkeepOn flaggingRemote wifiQuestion refusal None ?res
        "''illegal_activity''" remoteFinding sampleRuntime]
    by (simp add: inkeepOn_def flaggingRemote_def remoteFinding_def detect_wifiQuestion
        wifiViolation_def)
  have b: "v_type (violations
       (processInteraction inkeepOn flaggingRemote sampleRuntime piiQuestion refusal None) ! 1)
     \<notin> v_type ` set (take 1 (violations
       (processInteraction inkeepOn flaggingRemote sampleRuntime piiQuestion refusal None)))"
    using conjunct2 [OF conjunct2 [OF dedup_remote_wins [of inkeepOn flaggingRemote piiQuestion
        refusal None ?res "''illegal_activity''" remoteFinding sampleRuntime]],
        THEN spec [where x = "1::nat"]]
    by (simp add: r v2)
  show ?thesis
    using a b v1 v2
    by (simp add: inkeepOn_def remoteFinding_def detect_wifiQuestion wifiViolation_def)
qed

section \<open>Facts about the matcher\<close>

lemma rmatch_Opt_skip: "k s \<Longrightarrow> rmatch (Opt a) s k"
  by (cases s) auto

lemma rmatch_Star_skip: "k s \<Longrightarrow> rmatch (Star a) s k"
  by (cases s) auto

text \<open>A match stays a match when text is added behind the subject.\<close>

lemma rmatch_append:
  "rmatch r s k \<Longrightarrow> (\<And>s'. k s' \<Longrightarrow> k' (s' @ t)) \<Longrightarrow> rmatch r (s @ t) k'"
proof (induction r s k arbitrary: k' rule: rmatch.induct)
  case (1 s k)
  from "1.prems"(1) have "k s" by simp
  then have "k' (s @ t)" by (rule "1.prems"(2))
  then show ?case by simp
next
  case (2 a k)
  then show ?case by simp
next
  case (3 a c cs k)
  from "3.prems"(1) have a: "atom_ok a c" and "k cs"
    by (simp_all split: if_splits)
  from this(2) have "k' (cs @ t)" by (rule "3.prems"(2))
  with a show ?case by simp
next
  case (4 a k)
  from "4.prems"(1) have "k []" by simp
  then have "k' ([] @ t)" by (rule "4.prems"(2))
  then show ?case by (simp add: rmatch_Opt_skip)
next
  case (5 a c cs k)
  from "5.prems"(1) consider (taken) "atom_ok a c" "k cs" | (skipped) "k (c # cs)"
    by (auto split: if_splits)
  then show ?case
  proof cases
    case taken
    from taken(2) have "k' (cs @ t)" by (rule "5.prems"(2))
    with taken(1) show ?thesis by simp
  next
    case skipped
    then have "k' ((c # cs) @ t)" by (rule "5.prems"(2))
    then show ?thesis by simp
  qed
next
  case (6 a k)
  from "6.prems"(1) have "k []" by simp
  then have "k' ([] @ t)" by (rule "6.prems"(2))
  then show ?case by (simp add: rmatch_Star_skip)
next
  case (7 a c cs k)
  from "7.prems"(1) consider (taken) "atom_ok a c" "rmatch (Star a) cs k" | (skipped) "k (c # cs)"
    by (auto split: if_splits)
  then show ?case
  proof cases
    case taken
    from taken have "rmatch (Star a) (cs @ t) k'"
      by (rule "7.IH") (rule "7.prems"(2))
    with taken(1) show ?thesis by simp
  next
    case skipped
    then have "k' ((c # cs) @ t)" by (rule "7.prems"(2))
    then show ?thesis by simp
  qed
next
  case (8 a k)
  then show ?case by simp
next
  case (9 a c cs k)
  from "9.prems"(1) have a: "atom_ok a c" and m: "rmatch (Star a) cs k"
    by (simp_all split: if_splits)
  from a m have "rmatch (Star a) (cs @ t) k'"
    by (rule "9.IH") (rule "9.prems"(2))
  with a show ?case by simp
next
  case (10 r1 r2 s k)
  have step: "rmatch r2 (s' @ t) k'" if "rmatch r2 s' k" for s'
    using that by (rule "10.IH"(1)) (rule "10.prems"(2))
  from "10.prems"(1) have m: "rmatch r1 s (\<lambda>s'. rmatch r2 s' k)" by simp
  have "rmatch r1 (s @ t) (\<lambda>s'. rmatch r2 s' k')"
    using m step by (rule "10.IH"(2) [where k' = "\<lambda>s'. rmatch r2 s' k'"])
  then show ?case by simp
next
  case (11 r1 r2 s k)
  show ?case
  proof (cases "rmatch r1 s k")
    case True
    then have "rmatch r1 (s @ t) k'"
      by (rule "11.IH"(1)) (rule "11.prems"(2))
    then show ?thesis by simp
  next
    case False
    with "11.prems"(1) have m: "rmatch r2 s k" by simp
    from False m have "rmatch r2 (s @ t) k'"
      by (rule "11.IH"(2)) (rule "11.prems"(2))
    then show ?thesis by simp
  qed
qed

lemma test_iff:
  "test r s \<longleftrightarrow> (\<exists>pre suf. s = pre @ suf \<and> rmatch r suf (\<lambda>_. True))"
proof (induction s)
  case Nil
  then show ?case by simp
next
  case (Cons c cs)
  show ?case
  proof
    assume "test r (c # cs)"
    then consider "rmatch r (c # cs) (\<lambda>_. True)" | "test r cs"
      by (auto split: if_splits)
    then show "\<exists>pre suf. c # cs = pre @ suf \<and> rmatch r suf (\<lambda>_. True)"
    proof cases
      case 1
      then have "c # cs = [] @ (c # cs) \<and> rmatch r (c # cs) (\<lambda>_. True)" by simp
      then show ?thesis by blast
    next
      case 2
      then obtain pre suf where "cs = pre @ suf" "rmatch r suf (\<lambda>_. True)"
        using Cons.IH by blast
      then have "c # cs = (c # pre) @ suf \<and> rmatch r suf (\<lambda>_. True)" by simp
      then show ?thesis by blast
    qed
  next
    assume "\<exists>pre suf. c # cs = pre @ suf \<and> rmatch r suf (\<lambda>_. True)"
    then obtain pre suf where ps: "c # cs = pre @ suf" "rmatch r suf (\<lambda>_. True)"
      by blast
    show "test r (c # cs)"
    proof (cases pre)
      case Nil
      with ps have "rmatch r (c # cs) (\<lambda>_. True)" by simp
      then show ?thesis by simp
    next
      case (Cons d ds)
      with ps have "cs = ds @ suf" by simp
      with ps(2) have "test r cs" using Cons.IH by blast
      then show ?thesis by simp
    qed
  qed
qed

lemma test_append: "test r s \<Longrightarrow> test r (s @ t)"
proof -
  assume "test r s"
  then obtain pre suf where ps: "s = pre @ suf" "rmatch r suf (\<lambda>_. True)"
    unfolding test_iff by blast
  have "rmatch r (suf @ t) (\<lambda>_. True)"
    using ps(2) by (rule rmatch_append) simp
  moreover have "s @ t = pre @ (suf @ t)"
    using ps(1) by simp
  ultimately show "test r (s @ t)"
    unfolding test_iff by blast
qed

text \<open>A literal matches the texts that are equal to it up to the case folding.\<close>

lemma rmatch_lit:
  "rmatch (lit w) s k \<longleftrightarrow>
     (\<exists>x rest. s = x @ rest \<and> map canonicalize x = map canonicalize w \<and> k rest)"
proof (induction w arbitrary: s k)
  case Nil
  then show ?case by simp
next
  case (Cons c cs)
  show ?case
  proof (cases s)
    case Nil
    then show ?thesis by simp
  next
    case (Cons d ds)
    have "rmatch (lit (c # cs)) (d # ds) k \<longleftrightarrow>
            canonicalize c = canonicalize d \<and> rmatch (lit cs) ds k"
      by simp
    also have "\<dots> \<longleftrightarrow> canonicalize c = canonicalize d \<and>
            (\<exists>x rest. ds = x @ rest \<and> map canonicalize x = map canonicalize cs \<and> k rest)"
      by (simp only: Cons.IH)
    also have "\<dots> \<longleftrightarrow> (\<exists>x rest. d # ds = x @ rest \<and>
            map canonicalize x = map canonicalize (c # cs) \<and> k rest)"
    proof
      assume "canonicalize c = canonicalize d \<and>
            (\<exists>x rest. ds = x @ rest \<and> map canonicalize x = map canonicalize cs \<and> k rest)"
      then obtain x rest where "canonicalize c = canonicalize d" "ds = x @ rest"
          "map canonicalize x = map canonicalize cs" "k rest"
        by blast
      then have "d # ds = (d # x) @ rest \<and>
            map canonicalize (d # x) = map canonicalize (c # cs) \<and> k rest"
        by simp
      then show "\<exists>x rest. d # ds = x @ rest \<and>
            map canonicalize x = map canonicalize (c # cs) \<and> k rest"
        by blast
    next
      assume "\<exists>x rest. d # ds = x @ rest \<and>
            map canonicalize x = map canonicalize (c # cs) \<and> k rest"
      then obtain x rest where x: "d # ds = x @ rest"
          "map canonicalize x = map canonicalize (c # cs)" "k rest"
        by blast
      from x(2) obtain y ys where y: "x = y # ys" by (cases x) auto
      with x have "canonicalize c = canonicalize d" "ds = ys @ rest"
          "map canonicalize ys = map canonicalize cs"
        by auto
      with x(3) show "canonicalize c = canonicalize d \<and>
            (\<exists>x rest. ds = x @ rest \<and> map canonicalize x = map canonicalize cs \<and> k rest)"
        by blast
    qed
    finally show ?thesis using Cons by simp
  qed
qed

lemma map_eq_middle:
  assumes h: "map f s = ps @ m @ ss"
  shows "\<exists>pre x rest. s = pre @ x @ rest \<and> map f x = m"
proof -
  let ?x = "take (length m) (drop (length ps) s)"
  have "map f ?x = take (length m) (drop (length ps) (map f s))"
    by (simp add: take_map drop_map)
  also have "\<dots> = m"
    by (simp add: h)
  finally have x: "map f ?x = m" .
  have s: "s = take (length ps) s @ ?x @ drop (length m) (drop (length ps) s)"
    by (simp only: append_take_drop_id)
  show ?thesis
    by (rule exI [of _ "take (length ps) s"], rule exI [of _ ?x],
        rule exI [of _ "drop (length m) (drop (length ps) s)"], rule conjI [OF s x])
qed

lemma test_lit: "test (lit w) s \<longleftrightarrow> containsKeyword w s"
proof
  assume "test (lit w) s"
  then obtain pre suf where a: "s = pre @ suf" "rmatch (lit w) suf (\<lambda>_. True)"
    using test_iff [of "lit w" s] by blast
  from a(2) obtain x rest where b: "suf = x @ rest" "map canonicalize x = map canonicalize w"
    using rmatch_lit [of w suf "\<lambda>_. True"] by blast
  from a(1) b have "map canonicalize s =
      map canonicalize pre @ map canonicalize w @ map canonicalize rest"
    by simp
  then have "\<exists>ps ss. map canonicalize s = ps @ map canonicalize w @ ss"
    by (intro exI)
  then show "containsKeyword w s"
    by (simp only: containsKeyword_def sublist_def)
next
  assume "containsKeyword w s"
  then have "\<exists>ps ss. map canonicalize s = ps @ map canonicalize w @ ss"
    by (simp only: containsKeyword_def sublist_def)
  then obtain ps ss where "map canonicalize s = ps @ map canonicalize w @ ss"
    by (elim exE)
  then have "\<exists>pre x rest. s = pre @ x @ rest \<and> map canonicalize x = map canonicalize w"
    by (rule map_eq_middle)
  then obtain pre x rest where p: "s = pre @ x @ rest" "map canonicalize x = map canonicalize w"
    by (elim exE conjE)
  have "\<exists>y r. x @ rest = y @ r \<and> map canonicalize y = map canonicalize w \<and> True"
    using p(2) by (intro exI [of _ x] exI [of _ rest]) simp
  then have "rmatch (lit w) (x @ rest) (\<lambda>_. True)"
    by (simp only: rmatch_lit)
  then have "\<exists>pre' suf. s = pre' @ suf \<and> rmatch (lit w) suf (\<lambda>_. True)"
    using p(1) by (intro exI [of _ pre] exI [of _ "x @ rest"]) simp
  then show "test (lit w) s"
    by (simp only: test_iff)
qed

lemma test_Alt: "test (Alt r1 r2) s \<longleftrightarrow> test r1 s \<or> test r2 s"
  by (induction s) auto

section \<open>The scenario of the neighbour's wifi\<close>

lemma wifi_pattern_on_question:
  "test (seqs [lit ''hack'', ws1, lit ''into'', anything, wifi]) (toLowerCase wifiQuestion)"
  by code_simp

lemma wifi_question_triggers: "triggers wifiHackingPatterns wifiQuestion outp"
proof -
  let ?p = "seqs [lit ''hack'', ws1, lit ''into'', anything, wifi]"
  have "test ?p (toLowerCase wifiQuestion @ toLowerCase ('' '' @ outp))"
    using wifi_pattern_on_question by (rule test_append)
  then have "test ?p (toLowerCase (wifiQuestion @ '' '' @ outp))"
    by (simp only: toLowerCase_def map_append)
  moreover have "?p \<in> set wifiHackingPatterns"
    by (simp add: wifiHackingPatterns_def)
  ultimately show ?thesis
    unfolding triggers_def list_ex_iff by blast
qed

lemma wifi_question_detected:
  assumes "\<not> triggers violencePatterns wifiQuestion outp"
    and "\<not> triggers piiPatterns wifiQuestion outp"
  shows "detectViolations wifiQuestion outp = [wifiViolation]"
proof -
  have w: "list_ex (\<lambda>p. test p (toLowerCase (wifiQuestion @ '' '' @ outp))) wifiHackingPatterns"
    using wifi_question_triggers [of outp] unfolding triggers_def .
  have v: "\<not> list_ex (\<lambda>p. test p (toLowerCase (wifiQuestion @ '' '' @ outp))) violencePatterns"
    using assms(1) unfolding triggers_def .
  have p: "\<not> list_ex (\<lambda>p. test p (toLowerCase (wifiQuestion @ '' '' @ outp))) piiPatterns"
    using assms(2) unfolding triggers_def .
  show ?thesis
    by (simp only: detectViolations_eq Let_def w v p if_True if_False append_Nil2)
qed

text \<open>
  Claim C6. The input is \<open>How do I hack into my neighbor's wifi?\<close> and the remote tier is
  disabled. The output is innocuous: together with the input it sets off none of the
  violence patterns and none of the personal-information patterns. Then
  \<open>processInteraction\<close> returns exactly one violation, of type \<open>illegal_activity\<close> and of
  severity 9, and the interaction is blocked with severity critical.
\<close>

theorem wifi_scenario:
  assumes "\<not> useInkeepAgents svc"
    and "\<not> triggers violencePatterns ''How do I hack into my neighbor's wifi?'' outp"
    and "\<not> triggers piiPatterns ''How do I hack into my neighbor's wifi?'' outp"
  shows "\<exists>v. violations (processInteraction svc remote rt
                 ''How do I hack into my neighbor's wifi?'' outp ctx) = [v] \<and>
             v_type v = ''illegal_activity'' \<and> v_severity v = 9 \<and>
             status (processInteraction svc remote rt
                 ''How do I hack into my neighbor's wifi?'' outp ctx) = blocked \<and>
             severity (processInteraction svc remote rt
                 ''How do I hack into my neighbor's wifi?'' outp ctx) = critical"
proof -
  let ?r = "processInteraction svc remote rt wifiQuestion outp ctx"
  have d: "detectViolations wifiQuestion outp = [wifiViolation]"
    using assms(2,3) unfolding wifiQuestion_def [symmetric] by (rule wifi_question_detected)
  have rv: "remoteViolations svc remote wifiQuestion outp ctx = []"
    using assms(1) by (simp add: remoteViolations_def)
  have v: "violations ?r = [wifiViolation]"
    by (simp add: violations_processInteraction rv d)
  have e: "escalation [wifiViolation] = (blocked, critical)"
    by (simp add: escalation_def wifiViolation_def)
  have s: "status ?r = blocked \<and> severity ?r = critical"
    using status_processInteraction [of svc remote rt wifiQuestion outp ctx] by (simp add: v e)
  have t: "v_type wifiViolation = ''illegal_activity'' \<and> v_severity wifiViolation = 9"
    by (simp add: wifiViolation_def)
  have "violations ?r = [wifiViolation] \<and> v_type wifiViolation = ''illegal_activity'' \<and>
        v_severity wifiViolation = 9 \<and> status ?r = blocked \<and> severity ?r = critical"
    using v s t by (simp only: simp_thms)
  then have "\<exists>v. violations ?r = [v] \<and> v_type v = ''illegal_activity'' \<and>
        v_severity v = 9 \<and> status ?r = blocked \<and> severity ?r = critical"
    by (rule exI)
  then show ?thesis
    unfolding wifiQuestion_def .
qed

lemma refusal_innocuous:
  "\<not> triggers violencePatterns wifiQuestion refusal \<and>
   \<not> triggers piiPatterns wifiQuestion refusal"
  by code_simp

theorem wifi_scenario_witness:
  "\<not> useInkeepAgents legacyOnly \<and>
   \<not> triggers violencePatterns ''How do I hack into my neighbor's wifi?'' refusal \<and>
   \<not> triggers piiPatterns ''How do I hack into my neighbor's wifi?'' refusal \<and>
   (\<exists>v. violations (processInteraction legacyOnly refusingRemote sampleRuntime
                 ''How do I hack into my neighbor's wifi?'' refusal None) = [v] \<and>
             v_type v = ''illegal_activity'' \<and> v_severity v = 9 \<and>
             status (processInteraction legacyOnly refusingRemote sampleRuntime
                 ''How do I hack into my neighbor's wifi?'' refusal None) = blocked \<and>
             severity (processInteraction legacyOnly refusingRemote sampleRuntime
                 ''How do I hack into my neighbor's wifi?'' refusal None) = critical)"
proof -
  have h1: "\<not> useInkeepAgents legacyOnly"
    by (simp add: legacyOnly_def)
  have h2: "\<not> triggers violencePatterns ''How do I hack into my neighbor's wifi?'' refusal"
    using refusal_innocuous unfolding wifiQuestion_def by (rule conjunct1)
  have h3: "\<not> triggers piiPatterns ''How do I hack into my neighbor's wifi?'' refusal"
    using refusal_innocuous unfolding wifiQuestion_def by (rule conjunct2)
  note w = wifi_scenario [OF h1 h2 h3, of refusingRemote sampleRuntime None]
  show ?thesis
    by (rule conjI [OF h1 conjI [OF h2 conjI [OF h3 w]]])
qed

section \<open>The parse of the remote answer\<close>

text \<open>
  Claim C7. For every response, with \<open>c\<close> the content that the parse reads
  (\<open>response.content || response.message || ''\<close>): the parse produces one violation when
  \<open>c\<close> contains \<open>violation\<close> or \<open>blocked\<close> (letter case apart) and none otherwise; that
  violation has type \<open>compliance\<close>, severity 9 when \<open>c\<close> contains \<open>critical\<close> and 7
  otherwise, and confidence 0.85; and the parse produces exactly one action, of the
  coordinator, \<open>flag\<close> or \<open>approve\<close>, whose details are the first 200 characters of \<open>c\<close>
  followed by an ellipsis. \<open>#parseAdvanced\<close> passes both lists on unchanged.
\<close>

theorem parse_synthesizes_violation:
  "(let c = effectiveContent resp;
        hit = (containsKeyword ''violation'' c \<or> containsKeyword ''blocked'' c)
    in (length (r_violations (parseBasic now resp)) = 1 \<longleftrightarrow> hit) \<and>
       r_violations (parseBasic now resp) =
         (if hit
          then [\<lparr> v_type = ''compliance'',
                  v_description = ''Detected by Inkeep'',
                  v_reason = ''Inkeep analysis'',
                  v_severity = (if containsKeyword ''critical'' c then 9 else 7),
                  v_confidence = 0.85,
                  v_regulatoryFramework = None \<rparr>]
          else []) \<and>
       r_agentActions (parseBasic now resp) =
         [\<lparr> agentName = ''InkeepGovernanceCoordinator'',
             action = (if hit then flag else approve),
             details = take 200 c @ ''...'',
             a_timestamp = now \<rparr>] \<and>
       length (details (hd (r_agentActions (parseBasic now resp)))) \<le> 203 \<and>
       r_violations (parseAdvanced now resp) = r_violations (parseBasic now resp) \<and>
       r_agentActions (parseAdvanced now resp) = r_agentActions (parseBasic now resp))"
  by (simp add: Let_def parseBasic_def parseAdvanced_def violationOrBlocked_def
      test_Alt test_lit del: lit.simps)

theorem parse_synthesizes_violation_witness:
  "effectiveContent \<lparr> content = Some ''Status: BLOCKED, severity: CRITICAL'', message = None \<rparr>
     = ''Status: BLOCKED, severity: CRITICAL'' \<and>
   containsKeyword ''blocked'' ''Status: BLOCKED, severity: CRITICAL'' \<and>
   containsKeyword ''critical'' ''Status: BLOCKED, severity: CRITICAL'' \<and>
   map v_severity (r_violations (parseBasic 7
       \<lparr> content = Some ''Status: BLOCKED, severity: CRITICAL'', message = None \<rparr>)) = [9] \<and>
   map details (r_agentActions (parseBasic 7
       \<lparr> content = Some ''Status: BLOCKED, severity: CRITICAL'', message = None \<rparr>))
     = [''Status: BLOCKED, severity: CRITICAL...'']"
proof -
  let ?resp = "\<lparr> content = Some ''Status: BLOCKED, severity: CRITICAL'', message = None \<rparr>"
  have c: "effectiveContent ?resp = ''Status: BLOCKED, severity: CRITICAL''"
    by (simp add: effectiveContent_def)
  have b: "containsKeyword ''blocked'' ''Status: BLOCKED, severity: CRITICAL''"
    by code_simp
  have k: "containsKeyword ''critical'' ''Status: BLOCKED, severity: CRITICAL''"
    by code_simp
  show ?thesis
    using parse_synthesizes_violation [of ?resp 7]
    by (simp add: Let_def c b k)
qed

section \<open>The request of the remote analysis\<close>

lemma sublist_skip: "sublist x ys \<Longrightarrow> sublist x (p @ ys)"
  unfolding sublist_def by (metis append_assoc)

lemma request_carries_interaction:
  "sublist inp (msg_content (messages (body (governanceRequest svc stringify inp outp ctx)) ! 1)) \<and>
   sublist outp (msg_content (messages (body (governanceRequest svc stringify inp outp ctx)) ! 1)) \<and>
   sublist (stringify c)
     (msg_content (messages (body (governanceRequest svc stringify inp outp (Some c))) ! 1))"
  unfolding governanceRequest_def userContent_def
  apply (simp only: nth_Cons_Suc nth_Cons_0 One_nat_def chat_body.simps http_request.simps
      chat_message.simps option.case append_assoc)
  apply (intro conjI)
    apply (intro sublist_append_rightI sublist_skip)
   apply (intro sublist_append_rightI sublist_skip)
  apply (intro sublist_append_rightI sublist_skip)
  done

lemma instruction_names_frameworks:
  "list_all (\<lambda>w. sublist w systemInstruction)
     [''GDPR'', ''EU AI Act'', ''FISMA'', ''DSA'', ''NIS2'']"
  by code_simp

text \<open>
  Claim C8. The request of the analysis carries the system instruction that names the
  policy frameworks and the user message with the input, the output and the serialized
  context; but no field of it is an identifier composed as tenant/project/graph. In the
  revision that posts to \<open>/v1/chat/completions\<close> the model is \<open>openai/gpt-4.1-2025-04-14\<close>
  and the graph header is \<open>ethoslens/governance-graph-advanced\<close> (project and graph, no
  tenant); in the revision that posts to \<open>/conversations\<close> the graph is named
  \<open>governance-graph-advanced\<close> alone. Neither is the composed identifier
  \<open>default/ethoslens/governance-graph-advanced\<close> that the documentation of the repository
  requires.
\<close>

theorem request_identifier_not_composed:
  "segments (model (body (governanceRequest svc stringify inp outp ctx)))
     = [''openai'', ''gpt-4.1-2025-04-14''] \<and>
   map_of (headers (governanceRequest svc stringify inp outp ctx)) ''x-inkeep-graph-id''
     = Some ''ethoslens/governance-graph-advanced'' \<and>
   segments ''ethoslens/governance-graph-advanced'' = [''ethoslens'', ''governance-graph-advanced''] \<and>
   segments (c_graphId (conversationRequest svc stringify inp outp ctx))
     = [''governance-graph-advanced''] \<and>
   segments (composedIdentifier tenantId ''ethoslens'' ''governance-graph-advanced'')
     = [''default'', ''ethoslens'', ''governance-graph-advanced''] \<and>
   model (body (governanceRequest svc stringify inp outp ctx))
     \<noteq> composedIdentifier tenantId ''ethoslens'' ''governance-graph-advanced'' \<and>
   composedIdentifier tenantId ''ethoslens'' ''governance-graph-advanced''
     \<notin> snd ` set (headers (governanceRequest svc stringify inp outp ctx)) \<and>
   c_graphId (conversationRequest svc stringify inp outp ctx)
     \<noteq> composedIdentifier tenantId ''ethoslens'' ''governance-graph-advanced''"
proof -
  have m: "model (body (governanceRequest svc stringify inp outp ctx)) = ''openai/gpt-4.1-2025-04-14''"
    by (simp add: governanceRequest_def)
  have h: "headers (governanceRequest svc stringify inp outp ctx) =
             [(''Content-Type'', ''application/json''),
              (''x-inkeep-graph-id'', ''ethoslens/governance-graph-advanced'')]"
    by (simp add: governanceRequest_def)
  have g: "c_graphId (conversationRequest svc stringify inp outp ctx) = ''governance-graph-advanced''"
    by (simp add: conversationRequest_def)
  have s1: "segments ''openai/gpt-4.1-2025-04-14'' = [''openai'', ''gpt-4.1-2025-04-14'']"
    by code_simp
  have s2: "segments ''ethoslens/governance-graph-advanced''
              = [''ethoslens'', ''governance-graph-advanced'']"
    by code_simp
  have s3: "segments ''governance-graph-advanced'' = [''governance-graph-advanced'']"
    by code_simp
  have c: "composedIdentifier tenantId ''ethoslens'' ''governance-graph-advanced''
             = ''default/ethoslens/governance-graph-advanced''"
    by (simp add: composedIdentifier_def tenantId_def)
  have s4: "segments ''default/ethoslens/governance-graph-advanced''
              = [''default'', ''ethoslens'', ''governance-graph-advanced'']"
    by code_simp
  show ?thesis
    unfolding m h g c by (simp add: s1 s2 s3 s4)
qed

section \<open>The availability probe\<close>

lemma firstResolve_cases:
  "firstResolve es =
     (case es of
        [] \<Rightarrow> Pending
      | response_event sc # _ \<Rightarrow> Resolved (200 \<le> sc \<and> sc < 300)
      | error_event m # _ \<Rightarrow> Resolved False
      | timeout_event # _ \<Rightarrow> Resolved False)"
  by (cases es rule: firstResolve.cases) auto

lemma firstResolve_not_rejected: "firstResolve es \<noteq> Rejected msg"
  by (cases es rule: firstResolve.cases) simp_all

lemma firstResolve_true:
  "firstResolve es = Resolved True \<longleftrightarrow> (\<exists>sc rest. es = response_event sc # rest \<and> 200 \<le> sc \<and> sc \<le> 299)"
  by (cases es rule: firstResolve.cases) auto

text \<open>
  Claim C9. Whatever the configuration, the URL parser and the HTTP client do, \<open>isAvailable\<close>
  never ends with an exception for its caller. It resolves false when the tier is not
  enabled, when \<open>new URL\<close> rejects the endpoint, when creating the request throws, and when
  the first thing the request reports is an error or a timeout; the request is made with
  method GET and a timeout of 5000 milliseconds. It resolves true exactly when the tier is
  enabled, the endpoint parses, and the first thing the request reports is a response whose
  status lies in 200..299 (204 among them).
\<close>

theorem availability_probe:
  "isAvailable svc newURL request \<noteq> Rejected msg \<and>
   (\<not> isEnabled svc \<longrightarrow> isAvailable svc newURL request = Resolved False) \<and>
   (\<forall>err. newURL (baseUrl svc @ ''/health'') = Inl err \<longrightarrow>
      isAvailable svc newURL request = Resolved False) \<and>
   (\<forall>u. isEnabled svc \<and> newURL (baseUrl svc @ ''/health'') = Inr u \<longrightarrow>
      isAvailable svc newURL request =
        (case request (if protocol u = ''https:'' then https else http) u
                \<lparr> opt_method = ''GET'', opt_timeout = 5000 \<rparr> of
           Inl err \<Rightarrow> Resolved False
         | Inr [] \<Rightarrow> Pending
         | Inr (response_event sc # _) \<Rightarrow> Resolved (200 \<le> sc \<and> sc < 300)
         | Inr (error_event m # _) \<Rightarrow> Resolved False
         | Inr (timeout_event # _) \<Rightarrow> Resolved False)) \<and>
   (isAvailable svc newURL request = Resolved True \<longleftrightarrow>
      isEnabled svc \<and>
      (\<exists>u sc rest. newURL (baseUrl svc @ ''/health'') = Inr u \<and>
         request (if protocol u = ''https:'' then https else http) u
           \<lparr> opt_method = ''GET'', opt_timeout = 5000 \<rparr> = Inr (response_event sc # rest) \<and>
         200 \<le> sc \<and> sc \<le> 299))"
proof (intro conjI allI impI)
  show "isAvailable svc newURL request \<noteq> Rejected msg"
    by (simp add: isAvailable_def Let_def firstResolve_not_rejected split: sum.splits)
next
  assume "\<not> isEnabled svc"
  then show "isAvailable svc newURL request = Resolved False"
    by (simp add: isAvailable_def)
next
  fix err
  assume "newURL (baseUrl svc @ ''/health'') = Inl err"
  then show "isAvailable svc newURL request = Resolved False"
    by (simp add: isAvailable_def)
next
  fix u
  assume "isEnabled svc \<and> newURL (baseUrl svc @ ''/health'') = Inr u"
  then show "isAvailable svc newURL request =
        (case request (if protocol u = ''https:'' then https else http) u
                \<lparr> opt_method = ''GET'', opt_timeout = 5000 \<rparr> of
           Inl err \<Rightarrow> Resolved False
         | Inr [] \<Rightarrow> Pending
         | Inr (response_event sc # _) \<Rightarrow> Resolved (200 \<le> sc \<and> sc < 300)
         | Inr (error_event m # _) \<Rightarrow> Resolved False
         | Inr (timeout_event # _) \<Rightarrow> Resolved False)"
    by (simp add: isAvailable_def Let_def firstResolve_cases split: sum.splits)
next
  show "isAvailable svc newURL request = Resolved True \<longleftrightarrow>
      isEnabled svc \<and>
      (\<exists>u sc rest. newURL (baseUrl svc @ ''/health'') = Inr u \<and>
         request (if protocol u = ''https:'' then https else http) u
           \<lparr> opt_method = ''GET'', opt_timeout = 5000 \<rparr> = Inr (response_event sc # rest) \<and>
         200 \<le> sc \<and> sc \<le> 299)"
  proof (cases "isEnabled svc")
    case False
    then show ?thesis by (simp add: isAvailable_def)
  next
    case True
    show ?thesis
    proof (cases "newURL (baseUrl svc @ ''/health'')")
      case (Inl e)
      with True show ?thesis by (simp add: isAvailable_def)
    next
      case (Inr u)
      show ?thesis
      proof (cases "request (if protocol u = ''https:'' then https else http) u
                      \<lparr> opt_method = ''GET'', opt_timeout = 5000 \<rparr>")
        case (Inl e)
        with True Inr show ?thesis by (simp add: isAvailable_def Let_def)
      next
        case ev: (Inr es)
        with True Inr show ?thesis
          by (simp add: isAvailable_def Let_def firstResolve_true)
      qed
    qed
  qed
qed

theorem availability_probe_witness:
  "isAvailable sampleClient sampleNewURL healthyRequest = Resolved True \<and>
   isAvailable sampleClient sampleNewURL silentRequest = Resolved False \<and>
   isAvailable (sampleClient\<lparr>isEnabled := False\<rparr>) sampleNewURL healthyRequest = Resolved False \<and>
   isAvailable (sampleClient\<lparr>baseUrl := ''localhost:3003''\<rparr>) sampleNewURL healthyRequest
     = Resolved False"
proof -
  let ?u = "\<lparr> protocol = ''http:'', href = ''http://localhost:3003/health'' \<rparr>"
  have e: "isEnabled sampleClient"
    by (simp add: sampleClient_def)
  have p: "sampleNewURL (baseUrl sampleClient @ ''/health'') = Inr ?u"
    by (simp add: sampleClient_def sampleNewURL_def)
  have q: "sampleNewURL (baseUrl (sampleClient\<lparr>baseUrl := ''localhost:3003''\<rparr>) @ ''/health'')
             = Inl ''Invalid URL''"
    by (simp add: sampleNewURL_def)
  have d: "\<not> isEnabled (sampleClient\<lparr>isEnabled := False\<rparr>)"
    by simp
  note a = availability_probe [of sampleClient sampleNewURL healthyRequest "''x''"]
  note b = availability_probe [of sampleClient sampleNewURL silentRequest "''x''"]
  note c = availability_probe [of "sampleClient\<lparr>isEnabled := False\<rparr>" sampleNewURL healthyRequest "''x''"]
  note f = availability_probe [of "sampleClient\<lparr>baseUrl := ''localhost:3003''\<rparr>" sampleNewURL
      healthyRequest "''x''"]
  have 1: "isAvailable sampleClient sampleNewURL healthyRequest = Resolved True"
    using a e p by (simp add: healthyRequest_def)
  have 2: "isAvailable sampleClient sampleNewURL silentRequest = Resolved False"
    using b e p by (simp add: silentRequest_def)
  have 3: "isAvailable (sampleClient\<lparr>isEnabled := False\<rparr>) sampleNewURL healthyRequest
             = Resolved False"
    using c d by blast
  have 4: "isAvailable (sampleClient\<lparr>baseUrl := ''localhost:3003''\<rparr>) sampleNewURL healthyRequest
     = Resolved False"
    using f q by blast
  show ?thesis
    using 1 2 3 4 by (intro conjI)
qed

section \<open>The two tiers never report the same type\<close>

lemma parseAdvanced_types:
  "v \<in> set (r_violations (parseAdvanced now resp)) \<Longrightarrow> v_type v = ''compliance''"
  by (auto simp add: parseAdvanced_def parseBasic_def Let_def split: if_splits)

lemma processAdvancedGovernance_types:
  assumes "processAdvancedGovernance client fetch stringify now inp outp ctx = Inr result"
    and "v \<in> set (r_violations result)"
  shows "v_type v = ''compliance''"
proof -
  from assms(1) obtain resp where "result = parseAdvanced now resp"
    by (auto simp add: processAdvancedGovernance_def split: sum.splits if_splits)
  with assms(2) show ?thesis
    by (simp add: parseAdvanced_types)
qed

lemma remoteViolations_types:
  assumes "v \<in> set (remoteViolations svc (processAdvancedGovernance client fetch stringify now)
                      inp outp ctx)"
  shows "v_type v = ''compliance''"
proof (cases "processAdvancedGovernance client fetch stringify now inp outp ctx")
  case (Inl msg)
  have "remoteViolations svc (processAdvancedGovernance client fetch stringify now) inp outp ctx = []"
    by (simp add: remoteViolations_def Inl)
  with assms show ?thesis
    by simp
next
  case (Inr result)
  have "remoteViolations svc (processAdvancedGovernance client fetch stringify now) inp outp ctx
          = (if useInkeepAgents svc \<and> inkeepAvailable svc then r_violations result else [])"
    by (simp add: remoteViolations_def Inr)
  with assms have "v \<in> set (r_violations result)"
    by (simp split: if_splits)
  with Inr show ?thesis
    by (rule processAdvancedGovernance_types)
qed

lemma local_kept_whole:
  "filter (\<lambda>v. v_type v \<notin> v_type ` set (remoteViolations svc
              (processAdvancedGovernance client fetch stringify now) inp outp ctx))
          (detectViolations inp outp) = detectViolations inp outp"
proof -
  have "v_type v \<notin> v_type ` set (remoteViolations svc
              (processAdvancedGovernance client fetch stringify now) inp outp ctx)"
    if "v \<in> set (detectViolations inp outp)" for v
  proof
    assume "v_type v \<in> v_type ` set (remoteViolations svc
              (processAdvancedGovernance client fetch stringify now) inp outp ctx)"
    then obtain w where w: "w \<in> set (remoteViolations svc
              (processAdvancedGovernance client fetch stringify now) inp outp ctx)"
        and eq: "v_type v = v_type w"
      by blast
    from w have "v_type w = ''compliance''" by (rule remoteViolations_types)
    with eq detectViolations_types [OF that] show False by simp
  qed
  then show ?thesis
    by (simp only: filter_id_conv) blast
qed

text \<open>
  Claim C10. The parse of the remote answer only makes violations of type \<open>compliance\<close>;
  the local detector only makes violations of the types \<open>illegal_activity\<close>, \<open>violence\<close>
  and \<open>gdpr\<close>. So with the remote client of the program, whatever the configuration and
  whatever \<open>fetch\<close> does, the interaction returned carries the remote-sourced violations
  followed by all the locally detected ones, and its status and severity are at least as
  severe as those of the evaluation with the remote tier disabled.
\<close>

theorem local_findings_survive:
  "(\<forall>v \<in> set (r_violations (parseAdvanced now resp)). v_type v = ''compliance'') \<and>
   (\<forall>v \<in> set (detectViolations inp outp).
      v_type v = ''illegal_activity'' \<or> v_type v = ''violence'' \<or> v_type v = ''gdpr'') \<and>
   (let remote = processAdvancedGovernance client fetch stringify now;
        r = processInteraction svc remote rt inp outp ctx;
        l = processInteraction (svc\<lparr>useInkeepAgents := False\<rparr>) remote rt inp outp ctx
    in violations r = remoteViolations svc remote inp outp ctx @ detectViolations inp outp \<and>
       set (detectViolations inp outp) \<subseteq> set (violations r) \<and>
       violations l = detectViolations inp outp \<and>
       statusRank (status l) \<le> statusRank (status r) \<and>
       severityRank (severity l) \<le> severityRank (severity r))"
proof -
  let ?remote = "processAdvancedGovernance client fetch stringify now"
  let ?r = "processInteraction svc ?remote rt inp outp ctx"
  let ?l = "processInteraction (svc\<lparr>useInkeepAgents := False\<rparr>) ?remote rt inp outp ctx"
  have a: "\<forall>v \<in> set (r_violations (parseAdvanced now resp)). v_type v = ''compliance''"
    using parseAdvanced_types by blast
  have b: "\<forall>v \<in> set (detectViolations inp outp).
      v_type v = ''illegal_activity'' \<or> v_type v = ''violence'' \<or> v_type v = ''gdpr''"
    using detectViolations_types by blast
  have vr: "violations ?r = remoteViolations svc ?remote inp outp ctx @ detectViolations inp outp"
    by (simp only: violations_processInteraction set_map local_kept_whole)
  have vl: "violations ?l = detectViolations inp outp"
    by (simp add: violations_processInteraction remoteViolations_def)
  have sub: "set (violations ?l) \<subseteq> set (violations ?r)"
    by (simp add: vr vl)
  have sr: "(status ?r, severity ?r) = escalation (violations ?r)"
    by (rule status_processInteraction)
  have sl: "(status ?l, severity ?l) = escalation (violations ?l)"
    by (rule status_processInteraction)
  have "statusRank (fst (escalation (violations ?l))) \<le> statusRank (fst (escalation (violations ?r))) \<and>
        severityRank (snd (escalation (violations ?l))) \<le> severityRank (snd (escalation (violations ?r)))"
    using sub by (rule escalation_mono)
  then have m: "statusRank (status ?l) \<le> statusRank (status ?r) \<and>
        severityRank (severity ?l) \<le> severityRank (severity ?r)"
    by (simp only: sr [symmetric] sl [symmetric] fst_conv snd_conv)
  have "set (detectViolations inp outp) \<subseteq> set (violations ?r)"
    by (simp add: vr)
  with a b vr vl m show ?thesis
    by (simp only: Let_def simp_thms)
qed

theorem local_findings_survive_witness:
  "violations (processInteraction inkeepOn
       (processAdvancedGovernance sampleClient blockingFetch noContext 7)
       sampleRuntime piiQuestion refusal None)
     = r_violations (parseAdvanced 7 \<lparr> content = Some blockedAnswer, message = None \<rparr>) @ [piiViolation] \<and>
   map v_type (r_violations (parseAdvanced 7 \<lparr> content = Some blockedAnswer, message = None \<rparr>))
     = [''compliance''] \<and>
   status (processInteraction inkeepOn
       (processAdvancedGovernance sampleClient blockingFetch noContext 7)
       sampleRuntime piiQuestion refusal None) = blocked \<and>
   status (processInteraction (inkeepOn\<lparr>useInkeepAgents := False\<rparr>)
       (processAdvancedGovernance sampleClient blockingFetch noContext 7)
       sampleRuntime piiQuestion refusal None) = pending"
proof -
  let ?resp = "\<lparr> content = Some blockedAnswer, message = None \<rparr>"
  let ?remote = "processAdvancedGovernance sampleClient blockingFetch noContext 7"
  let ?r = "processInteraction inkeepOn ?remote sampleRuntime piiQuestion refusal None"
  let ?l = "processInteraction (inkeepOn\<lparr>useInkeepAgents := False\<rparr>) ?remote sampleRuntime
              piiQuestion refusal None"
  have c: "effectiveContent ?resp = blockedAnswer"
    by (simp add: effectiveContent_def blockedAnswer_def)
  have t1: "test violationOrBlocked blockedAnswer"
    by code_simp
  have t2: "test (lit ''critical'') blockedAnswer"
    by code_simp
  have pv: "r_violations (parseAdvanced 7 ?resp) =
      [\<lparr> v_type = ''compliance'', v_description = ''Detected by Inkeep'',
         v_reason = ''Inkeep analysis'', v_severity = 9, v_confidence = 0.85,
         v_regulatoryFramework = None \<rparr>]"
    by (simp add: parseAdvanced_def parseBasic_def Let_def c t1 t2 del: lit.simps)
  have call: "?remote piiQuestion refusal None = Inr (parseAdvanced 7 ?resp)"
    by (simp add: processAdvancedGovernance_def blockingFetch_def reply_ok_def)
  have rv: "remoteViolations inkeepOn ?remote piiQuestion refusal None
              = r_violations (parseAdvanced 7 ?resp)"
    by (simp add: remoteViolations_def inkeepOn_def call)
  note w = local_findings_survive [of 7 ?resp piiQuestion refusal sampleClient blockingFetch noContext
      inkeepOn sampleRuntime None]
  from w have vr: "violations ?r = r_violations (parseAdvanced 7 ?resp) @ [piiViolation]"
    by (simp add: Let_def rv detect_piiQuestion)
  from w have vl: "violations ?l = [piiViolation]"
    by (simp add: Let_def detect_piiQuestion)
  have sr: "status ?r = blocked"
    using status_processInteraction [of inkeepOn ?remote sampleRuntime piiQuestion refusal None]
    by (simp add: vr pv escalation_def)
  have sl: "status ?l = pending"
    using status_processInteraction [of "inkeepOn\<lparr>useInkeepAgents := False\<rparr>" ?remote
        sampleRuntime piiQuestion refusal None]
    by (simp add: vl escalation_def piiViolation_def)
  show ?thesis
    using vr sr sl by (simp add: pv)
qed

end
